theory Spec2Isabelle
  imports Main
begin

section \<open>Values shared by the server's functions\<close>

text \<open>
  The server is \<^verbatim>\<open>src/src/server.ts\<close>. JavaScript strings are modelled as
  \<^typ>\<open>string\<close>, array lengths and the counters of \<^verbatim>\<open>TotalCount\<close> as
  \<^typ>\<open>nat\<close> (they are sums of per-engine counts, starting at 0).
\<close>

text \<open>A number inside a template literal or added to a string: its decimal digits.\<close>

definition digit_char :: "nat \<Rightarrow> char" where
  "digit_char d = ''0123456789'' ! d"

fun string_of_nat :: "nat \<Rightarrow> string" where
  "string_of_nat n =
     (if n < 10 then [digit_char n]
      else string_of_nat (n div 10) @ [digit_char (n mod 10)])"

declare string_of_nat.simps [simp del]

text \<open>\<^verbatim>\<open>Array.prototype.join\<close> on an array of strings.\<close>

fun join :: "string \<Rightarrow> string list \<Rightarrow> string" where
  "join sep [] = []"
| "join sep [x] = x"
| "join sep (x # y # ys) = x @ sep @ join sep (y # ys)"

text \<open>\<^verbatim>\<open>class TotalCount\<close>: the three counters, each initialised to 0.\<close>

record TotalCount =
  vulnerabilityCount :: nat
  advisoryCount :: nat
  exploitCount :: nat

definition new_TotalCount :: TotalCount where
  "new_TotalCount = \<lparr>vulnerabilityCount = 0, advisoryCount = 0, exploitCount = 0\<rparr>"

section \<open>The summary notification message: \<^verbatim>\<open>getCAmsg\<close>\<close>

text \<open>
  \<^verbatim>\<open>knownVulnMsg\<close> and \<^verbatim>\<open>advisoryMsg\<close> are \<^verbatim>\<open>!count || `...`\<close>: the boolean
  \<^verbatim>\<open>true\<close> when the count is 0, the clause otherwise.
\<close>

datatype bool_or_string = BTrue | Str string

definition vulStr :: "nat \<Rightarrow> string" where
  "vulStr count = (if count = 1 then ''Vulnerability'' else ''Vulnerabilities'')"

definition advStr :: "nat \<Rightarrow> string" where
  "advStr count = (if count = 1 then ''Advisory'' else ''Advisories'')"

text \<open>What \<^verbatim>\<open>join\<close> prints for an element of the filtered array.\<close>

fun to_string :: "bool_or_string \<Rightarrow> string" where
  "to_string BTrue = ''true''"
| "to_string (Str s) = s"

definition getCAmsg :: "'a list \<Rightarrow> 'b list \<Rightarrow> TotalCount \<Rightarrow> string" where
  "getCAmsg deps diagnostics totalCount =
    (let msg = ''Scanned '' @ string_of_nat (length deps) @ '' '' @
                 (if length deps = 1 then ''dependency'' else ''dependencies'') @ '', ''
     in if length diagnostics > 0 then
          (let knownVulnMsg =
                 (if vulnerabilityCount totalCount = 0 then BTrue
                  else Str (string_of_nat (vulnerabilityCount totalCount) @ '' Known Security '' @
                            vulStr (vulnerabilityCount totalCount)));
               advisoryMsg =
                 (if advisoryCount totalCount = 0 then BTrue
                  else Str (string_of_nat (advisoryCount totalCount) @ '' Security '' @
                            advStr (advisoryCount totalCount)));
               summaryMsg0 = join '' and ''
                   (map to_string (filter (\<lambda>x. x \<noteq> BTrue) [knownVulnMsg, advisoryMsg]));
               summaryMsg1 = summaryMsg0 @
                 (if exploitCount totalCount > 0
                  then '' with '' @ string_of_nat (exploitCount totalCount) @ '' Exploitable '' @
                       vulStr (exploitCount totalCount)
                  else '''');
               summaryMsg = summaryMsg1 @
                 (if vulnerabilityCount totalCount + advisoryCount totalCount > 0
                  then '' along with quick fixes'' else '''')
           in msg @ (if summaryMsg \<noteq> '''' then ''flagged '' @ summaryMsg
                     else ''No potential security vulnerabilities found''))
        else msg @ ''No potential security vulnerabilities found'')"

section \<open>Batches of the request payload: \<^verbatim>\<open>slicePayload\<close>\<close>

text \<open>An item of the payload, \<^verbatim>\<open>{package, version}\<close>, and a batch request.\<close>

record package_version =
  package :: string
  version :: string

record 'a request =
  ecosystem :: string
  package_versions :: "'a list"

text \<open>\<^verbatim>\<open>payload.slice(i, j)\<close> for indices \<open>0 \<le> i\<close>, \<open>0 \<le> j\<close>.\<close>

definition slice :: "'a list \<Rightarrow> nat \<Rightarrow> nat \<Rightarrow> 'a list" where
  "slice xs i j = take (j - i) (drop i xs)"

text \<open>
  The \<^verbatim>\<open>for\<close> loop of \<^verbatim>\<open>slicePayload\<close>, with \<open>i\<close> and \<open>reqData\<close> as loop state.
  With \<open>batchSize = 0\<close> the index never advances and the loop does not return.
\<close>

partial_function (option) slice_loop ::
  "'a list \<Rightarrow> nat \<Rightarrow> string \<Rightarrow> nat \<Rightarrow> 'a request list \<Rightarrow> 'a request list option" where
  "slice_loop payload batchSize eco i reqData =
     (if i < length payload
      then slice_loop payload batchSize eco (i + batchSize)
             (reqData @ [\<lparr>ecosystem = eco, package_versions = slice payload i (i + batchSize)\<rparr>])
      else Some reqData)"

definition slicePayload :: "'a list \<Rightarrow> nat \<Rightarrow> string \<Rightarrow> 'a request list option" where
  "slicePayload payload batchSize eco = slice_loop payload batchSize eco 0 []"

text \<open>Closed form of the loop's result, used to reason about it.\<close>

fun chunks :: "nat \<Rightarrow> 'a list \<Rightarrow> 'a list list" where
  "chunks n xs = (if n = 0 \<or> xs = [] then [] else take n xs # chunks n (drop n xs))"

declare chunks.simps [simp del]

section \<open>Quick-fix actions: \<^verbatim>\<open>onCodeAction\<close>\<close>

record position =
  line :: nat
  character :: nat

text \<open>
  A diagnostic of the request: \<^verbatim>\<open>range.start\<close> and the optional \<^verbatim>\<open>source\<close>;
  further fields live in the record's extension.
\<close>

record diagnostic =
  range_start :: position
  source :: "string option"

record command =
  command_name :: string
  command_title :: string

text \<open>
  A code action. \<open>edit\<close> stands for the fields an indexed quick fix carries beyond a
  title, kind and command (its edit and diagnostics); the report action has none.
\<close>

record 'x code_action =
  title :: string
  kind :: string
  command :: "command option"
  edit :: "'x option"

definition fullStackReportAction :: "'x code_action" where
  "fullStackReportAction =
     \<lparr>title = ''Detailed Vulnerability Report'',
      kind = ''quickfix'',
      command = Some \<lparr>command_name = ''extension.fabric8AnalyticsWidgetFullStack'',
                      command_title = ''Analytics Report''\<rparr>,
      edit = None\<rparr>"

text \<open>The index key: \<^verbatim>\<open>range.start.line + "|" + range.start.character\<close>.\<close>

definition action_key :: "'m diagnostic_scheme \<Rightarrow> string" where
  "action_key d =
     string_of_nat (line (range_start d)) @ ''|'' @ string_of_nat (character (range_start d))"

text \<open>
  The loop over \<^verbatim>\<open>params.context.diagnostics\<close>; its state is \<^verbatim>\<open>codeActions\<close> and
  \<^verbatim>\<open>hasAnalyticsDiagonostic\<close>. \<open>codeActionsMap\<close> is the index (absent and
  \<^verbatim>\<open>null\<close> entries are \<open>None\<close>), \<open>analyticsSource\<close> the constant
  \<^verbatim>\<open>AnalyticsSource\<close>; both are imported by the server from other modules.
\<close>

fun codeAction_loop ::
  "(string \<rightharpoonup> 'x code_action) \<Rightarrow> string \<Rightarrow> 'm diagnostic_scheme list \<Rightarrow>
   'x code_action list \<times> bool \<Rightarrow> 'x code_action list \<times> bool" where
  "codeAction_loop codeActionsMap analyticsSource [] (codeActions, has) = (codeActions, has)"
| "codeAction_loop codeActionsMap analyticsSource (d # ds) (codeActions, has) =
     (let codeActions' =
            (case codeActionsMap (action_key d) of
               Some codeAction \<Rightarrow> codeActions @ [codeAction]
             | None \<Rightarrow> codeActions);
          has' = (if \<not> has then source d = Some analyticsSource else has)
      in codeAction_loop codeActionsMap analyticsSource ds (codeActions', has'))"

definition onCodeAction ::
  "bool \<Rightarrow> (string \<rightharpoonup> 'x code_action) \<Rightarrow> string \<Rightarrow> 'm diagnostic_scheme list \<Rightarrow>
   'x code_action list" where
  "onCodeAction provide_fullstack_action codeActionsMap analyticsSource diagnostics =
     (case codeAction_loop codeActionsMap analyticsSource diagnostics ([], False) of
        (codeActions, hasAnalyticsDiagonostic) \<Rightarrow>
          if provide_fullstack_action \<and> hasAnalyticsDiagonostic
          then codeActions @ [fullStackReportAction]
          else codeActions)"

section \<open>The version validity filter\<close>

text \<open>
  \<^verbatim>\<open>regexVersion\<close> is a regular expression; \<^verbatim>\<open>regexVersion.test(s)\<close> is modelled
  by a backtracking matcher over the constructs the expression uses. A character is
  a code unit below 256, so the white space \<^verbatim>\<open>trim\<close> removes is tab, line feed,
  vertical tab, form feed, carriage return, space and no-break space.
\<close>

datatype regex =
    CharClass "(char \<times> char) list"
  | Lit char
  | Seq regex regex
  | Opt regex
  | Plus regex

definition in_class :: "(char \<times> char) list \<Rightarrow> char \<Rightarrow> bool" where
  "in_class ranges c =
     list_ex (\<lambda>(lo, hi). (of_char lo :: nat) \<le> of_char c \<and> (of_char c :: nat) \<le> of_char hi)
       ranges"

text \<open>
  \<open>rmatch r s k\<close>: some match of \<open>r\<close> at the start of \<open>s\<close> leaves a rest that the
  continuation \<open>k\<close> accepts. An iteration of \<open>Plus\<close> repeats only after input was
  consumed.
\<close>

fun rmatch :: "regex \<Rightarrow> string \<Rightarrow> (string \<Rightarrow> bool) \<Rightarrow> bool" where
  "rmatch (CharClass ranges) s k =
     (case s of [] \<Rightarrow> False | c # cs \<Rightarrow> in_class ranges c \<and> k cs)"
| "rmatch (Lit a) s k = (case s of [] \<Rightarrow> False | c # cs \<Rightarrow> c = a \<and> k cs)"
| "rmatch (Seq r1 r2) s k = rmatch r1 s (\<lambda>s'. rmatch r2 s' k)"
| "rmatch (Opt r) s k = (rmatch r s k \<or> k s)"
| "rmatch (Plus r) s k =
     rmatch r s
       (\<lambda>s'. (if length s' < length s then rmatch (Plus r) s' k else False) \<or> k s')"

text \<open>The expression is anchored by \<^verbatim>\<open>^\<close> and \<^verbatim>\<open>$\<close>: the whole string must match.\<close>

definition regex_test :: "regex \<Rightarrow> string \<Rightarrow> bool" where
  "regex_test r s = rmatch r s (\<lambda>rest. rest = [])"

text \<open>\<^verbatim>\<open>[a-zA-Z0-9]\<close> and
  \<^verbatim>\<open>/^([a-zA-Z0-9]+\.)?([a-zA-Z0-9]+\.)?([a-zA-Z0-9]+\.)?([a-zA-Z0-9]+)$/\<close>.\<close>

definition alnum_class :: regex where
  "alnum_class = CharClass [(CHR ''a'', CHR ''z''), (CHR ''A'', CHR ''Z''), (CHR ''0'', CHR ''9'')]"

definition regexVersion :: regex where
  "regexVersion =
     Seq (Opt (Seq (Plus alnum_class) (Lit (CHR ''.''))))
    (Seq (Opt (Seq (Plus alnum_class) (Lit (CHR ''.''))))
    (Seq (Opt (Seq (Plus alnum_class) (Lit (CHR ''.''))))
         (Plus alnum_class)))"

definition is_white_space :: "char \<Rightarrow> bool" where
  "is_white_space c =
     (c \<in> set [CHR 0x09, CHR 0x0A, CHR 0x0B, CHR 0x0C, CHR 0x0D, CHR 0x20, CHR 0xA0])"

definition trim :: "string \<Rightarrow> string" where
  "trim s = rev (dropWhile is_white_space (rev (dropWhile is_white_space s)))"

text \<open>
  A collected dependency: \<^verbatim>\<open>name.value\<close> and \<^verbatim>\<open>version.value\<close>; the source
  positions and anything else a collector attaches live in the record's extension.
\<close>

record dependency =
  name_value :: string
  version_value :: string

text \<open>The \<^verbatim>\<open>validPackages\<close> of a cycle, as \<^verbatim>\<open>sendDiagnostics\<close> computes them.\<close>

definition validPackages :: "string \<Rightarrow> 'm dependency_scheme list \<Rightarrow> 'm dependency_scheme list" where
  "validPackages eco deps =
     (if eco \<noteq> ''golang''
      then filter (\<lambda>d. regex_test regexVersion (trim (version_value d))) deps
      else deps)"

text \<open>
  The structural pattern in the specification's words: up to four dot-separated
  alphanumeric segments.
\<close>

definition alphanumeric :: "char \<Rightarrow> bool" where
  "alphanumeric c =
     (c \<in> set ''abcdefghijklmnopqrstuvwxyzABCDEFGHIJKLMNOPQRSTUVWXYZ0123456789'')"

fun split_dots :: "string \<Rightarrow> string list" where
  "split_dots [] = [[]]"
| "split_dots (c # cs) =
     (if c = CHR ''.'' then [] # split_dots cs
      else (case split_dots cs of seg # segs \<Rightarrow> (c # seg) # segs | [] \<Rightarrow> [[c]]))"

definition segment :: "string \<Rightarrow> bool" where
  "segment seg = (seg \<noteq> [] \<and> list_all alphanumeric seg)"

definition version_pattern :: "string \<Rightarrow> bool" where
  "version_pattern s =
     (let segs = split_dots s in length segs \<le> 4 \<and> list_all segment segs)"

section \<open>The analysis cycle: \<^verbatim>\<open>sendDiagnostics\<close>\<close>

text \<open>
  What the server sends, in order: diagnostics publications, the \<^verbatim>\<open>caNotification\<close>
  and \<^verbatim>\<open>caError\<close> notifications on the connection, and the POST a call of
  \<^verbatim>\<open>fetchVulnerabilities\<close> issues (with the call's three arguments). Console
  logging is left out.
\<close>

record ca_notification =
  data :: string
  diagCount :: "nat option"
  vulnCount :: "TotalCount option"
  depCount :: "nat option"
  is_done :: bool
  uri :: string

datatype ('d, 'e) message =
    PublishDiagnostics string "'d list"
  | CaNotification ca_notification
  | CaError 'e string
  | Fetch "package_version request" string string

fun is_Fetch :: "('d, 'e) message \<Rightarrow> bool" where
  "is_Fetch (Fetch request manifestHash requestId) = True"
| "is_Fetch m = False"

fun is_Publish :: "('d, 'e) message \<Rightarrow> bool" where
  "is_Publish (PublishDiagnostics f ds) = True"
| "is_Publish m = False"

fun is_CaError :: "('d, 'e) message \<Rightarrow> bool" where
  "is_CaError (CaError error f) = True"
| "is_CaError m = False"

definition caDefaultMsg :: string where
  "caDefaultMsg = ''Checking for security vulnerabilities ...''"

text \<open>
  State that outlives a cycle: the cache store, the index of quick-fix actions the
  engines write, and the messages sent so far.
\<close>

record ('c, 'g, 'd, 'e) world =
  cache :: 'c
  codeActions :: 'g
  sent :: "('d, 'e) message list"

text \<open>The cycle's own objects: \<^verbatim>\<open>diagnostics\<close>, \<^verbatim>\<open>totalCount\<close>, \<^verbatim>\<open>packageAggregator\<close>.\<close>

record ('a, 'd) cycle =
  diagnostics :: "'d list"
  totalCount :: TotalCount
  packageAggregator :: 'a

datatype completion = Normal | Threw

datatype aggregator_kind = NoopVulnerabilityAggregator | GolangVulnerabilityAggregator

text \<open>
  How one POST ends: the transport fails (or the body is no JSON), or a response
  arrives with its status and, when the status is 2xx, the array of records in its body.
\<close>

datatype 'r fetch_outcome = FetchRejected | FetchResponse nat "'r list"

text \<open>
  The value the promise of \<^verbatim>\<open>fetchVulnerabilities\<close> resolves to: the parsed body,
  the numeric status, or \<^verbatim>\<open>undefined\<close> after the \<^verbatim>\<open>catch\<close>.
\<close>

datatype 'r response = RespData "'r list" | RespStatus nat | RespUndefined

fun is_RespData :: "'r response \<Rightarrow> bool" where
  "is_RespData (RespData rs) = True"
| "is_RespData r = False"

text \<open>
  The modules the server imports and this development takes as parameters:
  the cache of a namespace (\<^verbatim>\<open>get\<close>, \<^verbatim>\<open>add\<close>), \<^verbatim>\<open>DependencyMap.get\<close> of the
  map built from a dependency list, the aggregator constructors, the run of a
  \<^verbatim>\<open>DiagnosticsPipeline\<close> on one record (it may change the aggregator, the
  diagnostics array and the action index; it returns the counters of its engines, or
  \<open>None\<close> when it throws), and the SHA-256 digest in hexadecimal.
\<close>

record ('m, 'x, 'c, 'a, 'g, 'd) modules =
  cache_get :: "string \<Rightarrow> 'c \<Rightarrow> 'm dependency_scheme list \<Rightarrow>
                ('m dependency_scheme \<times> 'x package_version_scheme option) list"
  cache_add :: "string \<Rightarrow> 'x package_version_scheme response \<Rightarrow> 'c \<Rightarrow> 'c \<times> completion"
  pkgMap_get :: "'m dependency_scheme list \<Rightarrow> string \<Rightarrow> string \<Rightarrow> 'm dependency_scheme option"
  new_aggregator :: "aggregator_kind \<Rightarrow> 'a"
  pipeline_run :: "string \<Rightarrow> 'm dependency_scheme option \<Rightarrow> 'x package_version_scheme \<Rightarrow>
                   'a \<times> 'd list \<times> 'g \<Rightarrow> ('a \<times> 'd list \<times> 'g) \<times> TotalCount list option"
  sha256_hex :: "string \<Rightarrow> string"

text \<open>
  What the environment decides in a cycle: the fresh request id, how the POST of the
  \<open>k\<close>-th batch ends, and which of the pending promises settles next.
\<close>

record 'r network =
  requestId :: string
  outcome :: "nat \<Rightarrow> 'r fetch_outcome"
  pick :: "nat list \<Rightarrow> nat"

definition send :: "('d, 'e) message \<Rightarrow> ('c, 'g, 'd, 'e) world \<Rightarrow> ('c, 'g, 'd, 'e) world" where
  "send m w = w\<lparr>sent := sent w @ [m]\<rparr>"

text \<open>
  \<^verbatim>\<open>fetchVulnerabilities\<close>: the POST is issued at the call; \<open>resolved_value\<close> is
  what the returned promise later resolves to (\<^verbatim>\<open>response.ok\<close> is a status from 200
  to 299; the \<^verbatim>\<open>catch\<close> swallows a failed transport and nothing is returned).
\<close>

definition resolved_value :: "'r fetch_outcome \<Rightarrow> 'r response" where
  "resolved_value result =
     (case result of
        FetchResponse status respData \<Rightarrow>
          if 200 \<le> status \<and> status \<le> 299 then RespData respData else RespStatus status
      | FetchRejected \<Rightarrow> RespUndefined)"

definition fetchVulnerabilities ::
  "'r fetch_outcome \<Rightarrow> package_version request \<Rightarrow> string \<Rightarrow> string \<Rightarrow>
   ('c, 'g, 'd, 'e) world \<Rightarrow> 'r response \<times> ('c, 'g, 'd, 'e) world" where
  "fetchVulnerabilities result reqData manifestHash reqId w =
     (resolved_value result, send (Fetch reqData manifestHash reqId) w)"

definition add_counts :: "TotalCount \<Rightarrow> TotalCount \<Rightarrow> TotalCount" where
  "add_counts secEng tc =
     \<lparr>vulnerabilityCount = vulnerabilityCount tc + vulnerabilityCount secEng,
      advisoryCount = advisoryCount tc + advisoryCount secEng,
      exploitCount = exploitCount tc + exploitCount secEng\<rparr>"

text \<open>
  The \<^verbatim>\<open>response.forEach\<close> of \<^verbatim>\<open>runPipeline\<close>: an exception in a pipeline run ends
  the loop, and what was changed up to then stays changed.
\<close>

fun runPipeline_forEach ::
  "('m, 'x, 'c, 'a, 'g, 'd) modules \<Rightarrow> 'm dependency_scheme list \<Rightarrow> string \<Rightarrow>
   'x package_version_scheme list \<Rightarrow> ('a, 'd) cycle \<times> ('c, 'g, 'd, 'e) world \<Rightarrow>
   completion \<times> ('a, 'd) cycle \<times> ('c, 'g, 'd, 'e) world" where
  "runPipeline_forEach M pkgs diagnosticFilePath [] (cy, w) = (Normal, cy, w)"
| "runPipeline_forEach M pkgs diagnosticFilePath (r # rs) (cy, w) =
     (let dependency = pkgMap_get M pkgs (package r) (version r) in
      case pipeline_run M diagnosticFilePath dependency r
             (packageAggregator cy, diagnostics cy, codeActions w) of
        ((a, ds, g), None) \<Rightarrow>
          (Threw, cy\<lparr>diagnostics := ds, packageAggregator := a\<rparr>, w\<lparr>codeActions := g\<rparr>)
      | ((a, ds, g), Some items) \<Rightarrow>
          runPipeline_forEach M pkgs diagnosticFilePath rs
            (cy\<lparr>diagnostics := ds, totalCount := fold add_counts items (totalCount cy),
                packageAggregator := a\<rparr>,
             w\<lparr>codeActions := g\<rparr>))"

text \<open>
  \<^verbatim>\<open>runPipeline\<close>: a response that is no array has no \<^verbatim>\<open>forEach\<close>, so the call
  throws before anything is done; after the loop the diagnostics are published.
\<close>

definition runPipeline ::
  "('m, 'x, 'c, 'a, 'g, 'd) modules \<Rightarrow> 'm dependency_scheme list \<Rightarrow> string \<Rightarrow>
   'x package_version_scheme response \<Rightarrow> ('a, 'd) cycle \<times> ('c, 'g, 'd, 'e) world \<Rightarrow>
   completion \<times> ('a, 'd) cycle \<times> ('c, 'g, 'd, 'e) world" where
  "runPipeline M pkgs diagnosticFilePath resp s =
     (case resp of
        RespData rs \<Rightarrow>
          (case runPipeline_forEach M pkgs diagnosticFilePath rs s of
             (Normal, cy, w) \<Rightarrow>
               (Normal, cy, send (PublishDiagnostics diagnosticFilePath (diagnostics cy)) w)
           | (Threw, cy, w) \<Rightarrow> (Threw, cy, w))
      | RespStatus status \<Rightarrow> (Threw, s)
      | RespUndefined \<Rightarrow> (Threw, s))"

text \<open>\<^verbatim>\<open>cacheAndRunPipeline\<close>: \<^verbatim>\<open>cache.add(response)\<close>, then the pipeline.\<close>

definition cacheAndRunPipeline ::
  "('m, 'x, 'c, 'a, 'g, 'd) modules \<Rightarrow> string \<Rightarrow> 'm dependency_scheme list \<Rightarrow> string \<Rightarrow>
   'x package_version_scheme response \<Rightarrow> ('a, 'd) cycle \<times> ('c, 'g, 'd, 'e) world \<Rightarrow>
   completion \<times> ('a, 'd) cycle \<times> ('c, 'g, 'd, 'e) world" where
  "cacheAndRunPipeline M eco pkgs diagnosticFilePath resp s =
     (case s of (cy, w) \<Rightarrow>
        (case cache_add M eco resp (cache w) of
           (c, Threw) \<Rightarrow> (Threw, cy, w\<lparr>cache := c\<rparr>)
         | (c, Normal) \<Rightarrow> runPipeline M pkgs diagnosticFilePath resp (cy, w\<lparr>cache := c\<rparr>)))"

text \<open>
  \<^verbatim>\<open>slicePayload(...).map(request => fetchVulnerabilities(...))\<close>: the batches are
  posted one after the other, before any of them is answered.
\<close>

fun allRequests ::
  "'r network \<Rightarrow> string \<Rightarrow> nat \<Rightarrow> package_version request list \<Rightarrow> ('c, 'g, 'd, 'e) world \<Rightarrow>
   'r response list \<times> ('c, 'g, 'd, 'e) world" where
  "allRequests net manifestHash k [] w = ([], w)"
| "allRequests net manifestHash k (request # rest) w =
     (case fetchVulnerabilities (outcome net k) request manifestHash (requestId net) w of
        (resp, w1) \<Rightarrow>
          (case allRequests net manifestHash (Suc k) rest w1 of
             (resps, w2) \<Rightarrow> (resp # resps, w2)))"

text \<open>
  The order in which the pending promises settle: the environment picks one of those
  still pending, until none is left. Every batch settles once.
\<close>

function settle_order :: "(nat list \<Rightarrow> nat) \<Rightarrow> nat list \<Rightarrow> nat list" where
  "settle_order sel pending =
     (if pending = [] then []
      else pending ! (sel pending mod length pending) #
           settle_order sel (remove1 (pending ! (sel pending mod length pending)) pending))"
  by pat_completeness auto
termination
  by (relation "measure (\<lambda>(sel, pending). length pending)")
     (auto simp: length_remove1 intro!: diff_less)

declare settle_order.simps [simp del]

text \<open>
  The \<^verbatim>\<open>.then(cacheAndRunPipeline)\<close> callbacks, run on the resolved values in the
  order the promises settle. \<^verbatim>\<open>Promise.allSettled\<close> waits for all of them and
  ignores a callback that threw.
\<close>

fun settle ::
  "('m, 'x, 'c, 'a, 'g, 'd) modules \<Rightarrow> string \<Rightarrow> 'm dependency_scheme list \<Rightarrow> string \<Rightarrow>
   'x package_version_scheme response list \<Rightarrow> ('a, 'd) cycle \<times> ('c, 'g, 'd, 'e) world \<Rightarrow>
   ('a, 'd) cycle \<times> ('c, 'g, 'd, 'e) world" where
  "settle M eco pkgs diagnosticFilePath [] s = s"
| "settle M eco pkgs diagnosticFilePath (resp # resps) s =
     settle M eco pkgs diagnosticFilePath resps
       (snd (cacheAndRunPipeline M eco pkgs diagnosticFilePath resp s))"

text \<open>How a call of \<^verbatim>\<open>sendDiagnostics\<close> ends.\<close>

datatype 'd cycle_end =
    Aborted
  | Rejected
  | Completed "'d list" TotalCount

text \<open>The cache hits, the misses and the request payload of a cycle.\<close>

definition cachedValues ::
  "('k \<times> 'v option) list \<Rightarrow> 'v list" where
  "cachedValues cachedItems = List.map_filter snd cachedItems"

definition missedItems ::
  "('k \<times> 'v option) list \<Rightarrow> 'k list" where
  "missedItems cachedItems = map fst (filter (\<lambda>c. snd c = None) cachedItems)"

definition requestPayload :: "'m dependency_scheme list \<Rightarrow> package_version list" where
  "requestPayload missed = map (\<lambda>d. \<lparr>package = name_value d, version = version_value d\<rparr>) missed"

definition new_cycle :: "('m, 'x, 'c, 'a, 'g, 'd) modules \<Rightarrow> string \<Rightarrow> ('a, 'd) cycle" where
  "new_cycle M eco =
     \<lparr>diagnostics = [], totalCount = new_TotalCount,
      packageAggregator =
        new_aggregator M
          (if eco \<noteq> ''golang'' then NoopVulnerabilityAggregator
           else GolangVulnerabilityAggregator)\<rparr>"

definition summary_notification ::
  "'b list \<Rightarrow> 'd list \<Rightarrow> TotalCount \<Rightarrow> string \<Rightarrow> ca_notification" where
  "summary_notification deps diags tc diagnosticFilePath =
     \<lparr>data = getCAmsg deps diags tc, diagCount = Some (length diags), vulnCount = Some tc,
      depCount = Some (length deps), is_done = True, uri = diagnosticFilePath\<rparr>"

definition start_notification :: "string \<Rightarrow> ca_notification" where
  "start_notification diagnosticFilePath =
     \<lparr>data = caDefaultMsg, diagCount = None, vulnCount = None, depCount = None,
      is_done = False, uri = diagnosticFilePath\<rparr>"

text \<open>
  \<^verbatim>\<open>sendDiagnostics\<close>. The result is \<open>None\<close> when the call does not return (the
  slicing loop), otherwise how the call ended and the state it left.
\<close>

definition sendDiagnostics ::
  "('m, 'x, 'c, 'a, 'g, 'd) modules \<Rightarrow> 'x package_version_scheme network \<Rightarrow> string \<Rightarrow> string \<Rightarrow>
   string \<Rightarrow> (string \<Rightarrow> 'e + 'm dependency_scheme list) \<Rightarrow> ('c, 'g, 'd, 'e) world \<Rightarrow>
   ('d cycle_end \<times> ('c, 'g, 'd, 'e) world) option" where
  "sendDiagnostics M net eco diagnosticFilePath contents collect w0 =
     (let w1 = send (PublishDiagnostics diagnosticFilePath []) w0;
          w2 = send (CaNotification (start_notification diagnosticFilePath)) w1
      in case collect contents of
           Inl error \<Rightarrow> Some (Aborted, send (CaError error diagnosticFilePath) w2)
         | Inr deps \<Rightarrow>
            (let pkgs = validPackages eco deps;
                 batchSize = 10;
                 manifestHash = sha256_hex M diagnosticFilePath;
                 cachedItems = cache_get M eco (cache w2) pkgs
             in case runPipeline M pkgs diagnosticFilePath (RespData (cachedValues cachedItems))
                       (new_cycle M eco, w2) of
                  (Threw, cy1, w3) \<Rightarrow> Some (Rejected, w3)
                | (Normal, cy1, w3) \<Rightarrow>
                   (case slicePayload (requestPayload (missedItems cachedItems)) batchSize eco of
                      None \<Rightarrow> None
                    | Some reqData \<Rightarrow>
                       (case allRequests net manifestHash 0 reqData w3 of
                          (resps, w4) \<Rightarrow>
                            (case settle M eco pkgs diagnosticFilePath
                                    (map (\<lambda>k. resps ! k)
                                       (settle_order (pick net) [0..<length resps]))
                                    (cy1, w4) of
                               (cy2, w5) \<Rightarrow>
                                 Some (Completed (diagnostics cy2) (totalCount cy2),
                                       send (CaNotification
                                              (summary_notification deps (diagnostics cy2)
                                                 (totalCount cy2) diagnosticFilePath))
                                         w5))))))"

text \<open>
  The editor's side of a publication: the diagnostics shown for a file are those of
  the last publication for it, each publication replacing the set before.
\<close>

fun shown :: "string \<Rightarrow> ('d, 'e) message list \<Rightarrow> 'd list \<Rightarrow> 'd list" where
  "shown f [] ds = ds"
| "shown f (PublishDiagnostics f' ds' # ms) ds = shown f ms (if f' = f then ds' else ds)"
| "shown f (m # ms) ds = shown f ms ds"

section \<open>Document events and the debounce timer\<close>

text \<open>
  The state the handlers of the connection share: \<^verbatim>\<open>server.files.file_data\<close>, the
  variable \<^verbatim>\<open>checkDelay\<close> (the handle of the timer set last, if any), and the
  platform's pending timeouts, each with its handle, the time it is due and the uri
  its callback captured. \<open>runs\<close> records the calls of \<^verbatim>\<open>files.run\<close> on the
  diagnostics stream, which start the analysis of a manifest. Times are milliseconds.
\<close>

record tracker =
  file_data :: "string \<Rightarrow> string option"
  checkDelay :: "nat option"
  timers :: "(nat \<times> nat \<times> string) list"
  next_handle :: nat
  runs :: "(string \<times> string option) list"

datatype event =
    DidSave string
  | DidChange string "string list"
  | DidOpen string string
  | DidClose string

text \<open>\<^verbatim>\<open>handle_file_event(uri, contents)\<close>.\<close>

definition handle_file_event :: "string \<Rightarrow> string option \<Rightarrow> tracker \<Rightarrow> tracker" where
  "handle_file_event u contents s =
     s\<lparr>file_data := (file_data s)(u := contents), runs := runs s @ [(u, contents)]\<rparr>"

text \<open>\<^verbatim>\<open>clearTimeout(checkDelay)\<close>: the timer with that handle, if pending, is removed.\<close>

definition clearTimeout :: "tracker \<Rightarrow> tracker" where
  "clearTimeout s = s\<lparr>timers := filter (\<lambda>(h, due, u). Some h \<noteq> checkDelay s) (timers s)\<rparr>"

text \<open>\<^verbatim>\<open>checkDelay = setTimeout(() => ..., 500)\<close> at time \<open>now\<close>.\<close>

definition setTimeout :: "nat \<Rightarrow> string \<Rightarrow> tracker \<Rightarrow> tracker" where
  "setTimeout now u s =
     s\<lparr>timers := timers s @ [(next_handle s, now + 500, u)],
       checkDelay := Some (next_handle s),
       next_handle := Suc (next_handle s)\<rparr>"

text \<open>
  The handlers of save, change, open and close. A change notification with no
  content change throws at \<^verbatim>\<open>contentChanges[0].text\<close>, before anything is done.
\<close>

fun on_event :: "nat \<Rightarrow> event \<Rightarrow> tracker \<Rightarrow> tracker" where
  "on_event now (DidSave u) s =
     (let s1 = clearTimeout s in handle_file_event u (file_data s1 u) s1)"
| "on_event now (DidChange u contentChanges) s =
     (case contentChanges of
        [] \<Rightarrow> s
      | text0 # others \<Rightarrow>
          setTimeout now u (clearTimeout (s\<lparr>file_data := (file_data s)(u \<mapsto> text0)\<rparr>)))"
| "on_event now (DidOpen u text0) s = handle_file_event u (Some text0) s"
| "on_event now (DidClose u) s = clearTimeout s"

text \<open>The callback of a timer that fires; the timer is no longer pending.\<close>

definition fire :: "nat \<times> nat \<times> string \<Rightarrow> tracker \<Rightarrow> tracker" where
  "fire tm s =
     (case tm of (h, due, u) \<Rightarrow>
        handle_file_event u (file_data s u) (s\<lparr>timers := remove1 tm (timers s)\<rparr>))"

text \<open>Time passes up to \<open>t\<close>: the pending timers due by then fire, earliest first.\<close>

definition advance :: "nat \<Rightarrow> tracker \<Rightarrow> tracker" where
  "advance t s =
     fold fire (sort_key (\<lambda>(h, due, u). due) (filter (\<lambda>(h, due, u). due \<le> t) (timers s))) s"

text \<open>A sequence of events, each with the time at which its handler runs.\<close>

fun run_events :: "(nat \<times> event) list \<Rightarrow> tracker \<Rightarrow> tracker" where
  "run_events [] s = s"
| "run_events ((t, ev) # evs) s = run_events evs (on_event t ev (advance t s))"

text \<open>
  Edits only, each with a content change, at times that do not decrease and of
  which each but the first comes less than 500 ms after the one before.
\<close>

fun edit_burst :: "(nat \<times> event) list \<Rightarrow> bool" where
  "edit_burst [] = True"
| "edit_burst [(t, DidChange u (c # cs))] = True"
| "edit_burst ((t, DidChange u (c # cs)) # (t', ev) # evs) =
     (t \<le> t' \<and> t' < t + 500 \<and> edit_burst ((t', ev) # evs))"
| "edit_burst evs = False"

text \<open>The uri and the new text of an edit.\<close>

fun edit_of :: "nat \<times> event \<Rightarrow> string \<times> string option" where
  "edit_of (t, DidChange u (c # cs)) = (u, Some c)"
| "edit_of (t, ev) = ([], None)"

section \<open>Names for the phases of a cycle\<close>

text \<open>
  The state after the two opening messages of \<^verbatim>\<open>sendDiagnostics\<close>, the run of the
  pipeline on the cache hits, the batch requests built from the misses, and the
  resolved values of the batches in the order in which they settle.
\<close>

definition opened :: "string \<Rightarrow> ('c, 'g, 'd, 'e) world \<Rightarrow> ('c, 'g, 'd, 'e) world" where
  "opened diagnosticFilePath w =
     send (CaNotification (start_notification diagnosticFilePath))
       (send (PublishDiagnostics diagnosticFilePath []) w)"

definition hits_run ::
  "('m, 'x, 'c, 'a, 'g, 'd) modules \<Rightarrow> string \<Rightarrow> string \<Rightarrow> 'm dependency_scheme list \<Rightarrow>
   ('c, 'g, 'd, 'e) world \<Rightarrow> completion \<times> ('a, 'd) cycle \<times> ('c, 'g, 'd, 'e) world" where
  "hits_run M eco diagnosticFilePath deps w =
     runPipeline M (validPackages eco deps) diagnosticFilePath
       (RespData (cachedValues (cache_get M eco (cache w) (validPackages eco deps))))
       (new_cycle M eco, opened diagnosticFilePath w)"

definition batches ::
  "('m, 'x, 'c, 'a, 'g, 'd) modules \<Rightarrow> string \<Rightarrow> 'm dependency_scheme list \<Rightarrow> 'c \<Rightarrow>
   package_version request list" where
  "batches M eco deps c =
     map (\<lambda>items. \<lparr>ecosystem = eco, package_versions = items\<rparr>)
       (chunks 10 (requestPayload (missedItems (cache_get M eco c (validPackages eco deps)))))"

definition settled_values :: "'r network \<Rightarrow> nat \<Rightarrow> 'r response list" where
  "settled_values net n =
     map (\<lambda>k. resolved_value (outcome net k)) (settle_order (pick net) [0..<n])"

text \<open>A string of between 1 and \<open>n + 1\<close> segments separated by single dots.\<close>

fun segments_upto :: "nat \<Rightarrow> string \<Rightarrow> bool" where
  "segments_upto 0 s = segment s"
| "segments_upto (Suc n) s =
     ((\<exists>seg rest. segment seg \<and> s = seg @ CHR ''.'' # rest \<and> segments_upto n rest) \<or>
      segments_upto n s)"

section \<open>A small instance of the imported modules\<close>

text \<open>
  For running the cycle on concrete input: the cache is the list of records added so
  far, the dependency map finds the first dependency with the name and version, and
  the pipeline reports one known vulnerability per record, with the package name as
  its diagnostic.
\<close>

definition same_identity :: "package_version \<Rightarrow> dependency \<Rightarrow> bool" where
  "same_identity r d = (package r = name_value d \<and> version r = version_value d)"

definition demo_modules ::
  "(unit, unit, package_version list, unit, unit, string) modules" where
  "demo_modules =
     \<lparr>cache_get = (\<lambda>eco c deps. map (\<lambda>d. (d, find (\<lambda>r. same_identity r d) c)) deps),
      cache_add = (\<lambda>eco resp c.
         case resp of RespData rs \<Rightarrow> (rs @ c, Normal) | RespStatus n \<Rightarrow> (c, Threw)
         | RespUndefined \<Rightarrow> (c, Threw)),
      pkgMap_get = (\<lambda>pkgs n v. find (\<lambda>d. name_value d = n \<and> version_value d = v) pkgs),
      new_aggregator = (\<lambda>k. ()),
      pipeline_run = (\<lambda>f dep r (a, ds, g).
         ((a, ds @ [package r], g),
          Some [\<lparr>vulnerabilityCount = 1, advisoryCount = 0, exploitCount = 0\<rparr>])),
      sha256_hex = (\<lambda>s. ''sha256:'' @ s)\<rparr>"

text \<open>Eleven dependencies \<open>p0\<close> to \<open>p10\<close>, all at version 1.0.0.\<close>

definition demo_deps :: "dependency list" where
  "demo_deps =
     map (\<lambda>i. \<lparr>name_value = ''p'' @ string_of_nat i, version_value = ''1.0.0''\<rparr>) [0..<11]"

text \<open>The first batch is answered with status 500, every other with one record.\<close>

definition demo_network :: "package_version network" where
  "demo_network =
     \<lparr>requestId = ''req-1'',
      outcome = (\<lambda>k. if k = 0 then FetchResponse 500 []
                     else FetchResponse 200 [\<lparr>package = ''p10'', version = ''1.0.0''\<rparr>]),
      pick = (\<lambda>pending. 0)\<rparr>"

text \<open>A collector that finds these dependencies, and one that rejects its input.\<close>

definition demo_collect :: "string \<Rightarrow> string + dependency list" where
  "demo_collect contents = Inr demo_deps"

definition broken_collect :: "string \<Rightarrow> string + dependency list" where
  "broken_collect contents = Inl (''cannot parse: '' @ contents)"

definition empty_world :: "(package_version list, unit, string, string) world" where
  "empty_world = \<lparr>cache = [], codeActions = (), sent = []\<rparr>"

text \<open>Dependencies of which the second and third have a version outside the pattern.\<close>

definition mixed_deps :: "dependency list" where
  "mixed_deps =
     [\<lparr>name_value = ''p'', version_value = '' 1.2.3 ''\<rparr>,
      \<lparr>name_value = ''q'', version_value = ''^2.0.0''\<rparr>,
      \<lparr>name_value = ''r'', version_value = ''1.2.3.4.5''\<rparr>,
      \<lparr>name_value = ''s'', version_value = ''1.0''\<rparr>]"

definition mixed_deps_alt :: "dependency list" where
  "mixed_deps_alt =
     [\<lparr>name_value = ''p'', version_value = '' 1.2.3 ''\<rparr>,
      \<lparr>name_value = ''x'', version_value = ''>=1.0''\<rparr>,
      \<lparr>name_value = ''y'', version_value = ''''\<rparr>,
      \<lparr>name_value = ''s'', version_value = ''1.0''\<rparr>]"

text \<open>A tracker with nothing pending, and three edits of one document within the window.\<close>

definition initial_tracker :: tracker where
  "initial_tracker =
     \<lparr>file_data = (\<lambda>u. None), checkDelay = None, timers = [], next_handle = 0, runs = []\<rparr>"

definition three_edits :: "(nat \<times> event) list" where
  "three_edits =
     [(0, DidChange ''package.json'' [''a'']),
      (100, DidChange ''package.json'' [''ab'']),
      (400, DidChange ''package.json'' [''abc''])]"

text \<open>A world whose cache already holds the record of \<open>p10\<close>.\<close>

definition warm_world :: "(package_version list, unit, string, string) world" where
  "warm_world =
     \<lparr>cache = [\<lparr>package = ''p10'', version = ''1.0.0''\<rparr>], codeActions = (), sent = []\<rparr>"

text \<open>An index with two quick fixes, and a request with three diagnostics.\<close>

definition switch_action :: "string \<Rightarrow> string code_action" where
  "switch_action v =
     \<lparr>title = ''Switch to recommended version '' @ v, kind = ''quickfix'', command = None,
      edit = Some v\<rparr>"

definition demo_index :: "string \<rightharpoonup> string code_action" where
  "demo_index = [''0|7'' \<mapsto> switch_action ''1.2.4'', ''12|105'' \<mapsto> switch_action ''2.0.1'']"

definition demo_request :: "diagnostic list" where
  "demo_request =
     [\<lparr>range_start = \<lparr>line = 12, character = 105\<rparr>, source = Some ''analytics''\<rparr>,
      \<lparr>range_start = \<lparr>line = 3, character = 4\<rparr>, source = None\<rparr>,
      \<lparr>range_start = \<lparr>line = 0, character = 7\<rparr>, source = Some ''eslint''\<rparr>]"

section \<open>Properties of the summary message\<close>

lemma string_of_nat_not_Nil: "string_of_nat n \<noteq> []"
  by (subst string_of_nat.simps) simp

lemma string_of_nat_digit: "n < 10 \<Longrightarrow> string_of_nat n = [digit_char n]"
  by (subst string_of_nat.simps) simp

text \<open>
  C7. With a non-empty diagnostics list the message is the scan prefix followed, when
  some count is positive, by \<open>flagged\<close> and: the known-vulnerability clause if that
  count is non-zero, the advisory clause if that count is non-zero, the two joined by
  \<open>and\<close> when both are present; then the exploitable clause exactly when
  \<open>exploitCount > 0\<close>; then the quick-fixes clause exactly when
  \<open>vulnerabilityCount + advisoryCount > 0\<close>.
\<close>

theorem getCAmsg_flagged:
  assumes "diags \<noteq> []"
  shows "getCAmsg deps diags tc =
     ''Scanned '' @ string_of_nat (length deps) @ '' '' @
       (if length deps = 1 then ''dependency'' else ''dependencies'') @ '', '' @
     (if vulnerabilityCount tc = 0 \<and> advisoryCount tc = 0 \<and> exploitCount tc = 0
      then ''No potential security vulnerabilities found''
      else ''flagged '' @
        (if vulnerabilityCount tc = 0 then ''''
         else string_of_nat (vulnerabilityCount tc) @ '' Known Security '' @
              (if vulnerabilityCount tc = 1 then ''Vulnerability'' else ''Vulnerabilities'')) @
        (if vulnerabilityCount tc = 0 \<or> advisoryCount tc = 0 then '''' else '' and '') @
        (if advisoryCount tc = 0 then ''''
         else string_of_nat (advisoryCount tc) @ '' Security '' @
              (if advisoryCount tc = 1 then ''Advisory'' else ''Advisories'')) @
        (if exploitCount tc > 0
         then '' with '' @ string_of_nat (exploitCount tc) @ '' Exploitable '' @
              (if exploitCount tc = 1 then ''Vulnerability'' else ''Vulnerabilities'')
         else '''') @
        (if vulnerabilityCount tc + advisoryCount tc > 0
         then '' along with quick fixes'' else ''''))"
  using assms
  by (simp add: getCAmsg_def vulStr_def advStr_def string_of_nat_not_Nil)

theorem getCAmsg_flagged_witness:
  "getCAmsg [''a'', ''b'', ''c''] [''d'']
     \<lparr>vulnerabilityCount = 1, advisoryCount = 1, exploitCount = 1\<rparr> =
   ''Scanned 3 dependencies, flagged 1 Known Security Vulnerability and 1 Security Advisory with 1 Exploitable Vulnerability along with quick fixes''"
proof -
  have ne: "[''d''] \<noteq> []" by simp
  show ?thesis
    by (simp only: getCAmsg_flagged [OF ne]) (simp add: string_of_nat_digit digit_char_def)
qed

text \<open>The specification's second example: counts 2, 0, 0 for three dependencies.\<close>

lemma getCAmsg_two_known:
  "getCAmsg [''a'', ''b'', ''c''] [''d'']
     \<lparr>vulnerabilityCount = 2, advisoryCount = 0, exploitCount = 0\<rparr> =
   ''Scanned 3 dependencies, flagged 2 Known Security Vulnerabilities along with quick fixes''"
  by (simp add: getCAmsg_def vulStr_def string_of_nat_digit digit_char_def)

text \<open>
  C8. For a dependency list of length 1 and an empty diagnostics list the message is
  exactly \<open>Scanned 1 dependency, No potential security vulnerabilities found\<close>.
\<close>

theorem getCAmsg_single_clean:
  assumes "length deps = 1"
  shows "getCAmsg deps [] tc =
           ''Scanned 1 dependency, No potential security vulnerabilities found''"
  using assms by (simp add: getCAmsg_def string_of_nat_digit digit_char_def)

theorem getCAmsg_single_clean_witness:
  "getCAmsg [''lodash''] ([] :: string list)
     \<lparr>vulnerabilityCount = 0, advisoryCount = 0, exploitCount = 0\<rparr> =
   ''Scanned 1 dependency, No potential security vulnerabilities found''"
proof -
  have one: "length [''lodash''] = 1" by simp
  show ?thesis by (rule getCAmsg_single_clean [OF one])
qed

text \<open>
  C9. With a non-empty diagnostics list and all three counts zero, the message still
  ends in \<open>No potential security vulnerabilities found\<close>; no \<open>flagged\<close> phrase.
\<close>

theorem getCAmsg_zero_counts:
  assumes "diags \<noteq> []"
    and "vulnerabilityCount tc = 0"
    and "advisoryCount tc = 0"
    and "exploitCount tc = 0"
  shows "getCAmsg deps diags tc =
           ''Scanned '' @ string_of_nat (length deps) @ '' '' @
           (if length deps = 1 then ''dependency'' else ''dependencies'') @
           '', No potential security vulnerabilities found''"
  using assms by (simp add: getCAmsg_def)

theorem getCAmsg_zero_counts_witness:
  "getCAmsg [''a'', ''b''] [''stale diagnostic'']
     \<lparr>vulnerabilityCount = 0, advisoryCount = 0, exploitCount = 0\<rparr> =
   ''Scanned 2 dependencies, No potential security vulnerabilities found''"
proof -
  have ne: "[''stale diagnostic''] \<noteq> []" by simp
  show ?thesis
    by (simp only: getCAmsg_zero_counts [OF ne, of "\<lparr>vulnerabilityCount = 0, advisoryCount = 0, exploitCount = 0\<rparr>", simplified])
       (simp add: string_of_nat_digit digit_char_def)
qed

section \<open>Properties of the batch slicing\<close>

lemma chunks_Nil [simp]: "chunks n [] = []"
  by (simp add: chunks.simps)

lemma chunks_step: "0 < n \<Longrightarrow> xs \<noteq> [] \<Longrightarrow> chunks n xs = take n xs # chunks n (drop n xs)"
  by (subst chunks.simps) simp

lemma slice_loop_chunks:
  "0 < n \<Longrightarrow>
   slice_loop payload n eco i acc =
     Some (acc @ map (\<lambda>c. \<lparr>ecosystem = eco, package_versions = c\<rparr>) (chunks n (drop i payload)))"
proof (induction "length payload - i" arbitrary: i acc rule: less_induct)
  case less
  show ?case
  proof (cases "i < length payload")
    case False
    then show ?thesis by (subst slice_loop.simps) simp
  next
    case True
    then have ne: "drop i payload \<noteq> []" by simp
    have smaller: "length payload - (i + n) < length payload - i"
      using True less.prems by arith
    have step: "slice_loop payload n eco (i + n)
        (acc @ [\<lparr>ecosystem = eco, package_versions = slice payload i (i + n)\<rparr>]) =
      Some ((acc @ [\<lparr>ecosystem = eco, package_versions = slice payload i (i + n)\<rparr>]) @
        map (\<lambda>c. \<lparr>ecosystem = eco, package_versions = c\<rparr>) (chunks n (drop (i + n) payload)))"
      by (rule less.hyps [OF smaller less.prems])
    have "chunks n (drop i payload) = take n (drop i payload) # chunks n (drop (i + n) payload)"
      using chunks_step [OF less.prems ne] by (simp add: add.commute)
    with step True show ?thesis
      by (subst slice_loop.simps) (simp add: slice_def)
  qed
qed

lemma slicePayload_chunks:
  "0 < n \<Longrightarrow> slicePayload payload n eco =
     Some (map (\<lambda>c. \<lparr>ecosystem = eco, package_versions = c\<rparr>) (chunks n payload))"
  by (simp add: slicePayload_def slice_loop_chunks)

lemma concat_chunks: "0 < n \<Longrightarrow> concat (chunks n xs) = xs"
proof (induction n xs rule: chunks.induct)
  case (1 n xs)
  show ?case
  proof (cases "xs = []")
    case True then show ?thesis by simp
  next
    case False
    with 1 show ?thesis by (simp add: chunks_step)
  qed
qed

lemma chunks_bounds: "c \<in> set (chunks n xs) \<Longrightarrow> c \<noteq> [] \<and> length c \<le> n"
proof (induction n xs rule: chunks.induct)
  case (1 n xs)
  show ?case
  proof (cases "n = 0 \<or> xs = []")
    case True
    with 1 show ?thesis by (simp add: chunks.simps)
  next
    case False
    with "1.prems" have "c = take n xs \<or> c \<in> set (chunks n (drop n xs))"
      by (simp add: chunks_step)
    with False "1.IH" show ?thesis by auto
  qed
qed

lemma chunks_nth:
  "0 < n \<Longrightarrow> k < length (chunks n xs) \<Longrightarrow> chunks n xs ! k = take n (drop (k * n) xs)"
proof (induction n xs arbitrary: k rule: chunks.induct)
  case (1 n xs)
  show ?case
  proof (cases "xs = []")
    case True
    with "1.prems" show ?thesis by simp
  next
    case False
    show ?thesis
    proof (cases k)
      case 0
      with False "1.prems" show ?thesis by (simp add: chunks_step)
    next
      case (Suc j)
      with False "1.prems" have "j < length (chunks n (drop n xs))"
        by (simp add: chunks_step)
      with "1.IH" False "1.prems" have "chunks n (drop n xs) ! j = take n (drop (j * n) (drop n xs))"
        by simp
      with False "1.prems" Suc show ?thesis by (simp add: chunks_step add.commute)
    qed
  qed
qed

lemma length_chunks: "0 < n \<Longrightarrow> length (chunks n xs) = (length xs + (n - 1)) div n"
proof (induction n xs rule: chunks.induct)
  case (1 n xs)
  show ?case
  proof (cases "xs = []")
    case True
    with "1.prems" show ?thesis by simp
  next
    case False
    with 1 have IH: "length (chunks n (drop n xs)) = (length xs - n + (n - 1)) div n" by simp
    show ?thesis
    proof (cases "length xs \<le> n")
      case True
      from False have pos: "0 < length xs" by simp
      have lo: "n * 1 \<le> length xs + (n - 1)" using pos by arith
      have hi: "length xs + (n - 1) < n * Suc 1" using True pos by arith
      have "(length xs + (n - 1)) div n = 1"
        by (rule div_nat_eqI [OF lo hi])
      with True IH False "1.prems" show ?thesis by (simp add: chunks_step)
    next
      case False2: False
      then have "length xs + (n - 1) = (length xs - n + (n - 1)) + n" by simp
      then have "(length xs + (n - 1)) div n = Suc ((length xs - n + (n - 1)) div n)"
        using "1.prems" by (metis div_add_self2 less_numeral_extra(3) Suc_eq_plus1)
      with IH False "1.prems" show ?thesis by (simp add: chunks_step)
    qed
  qed
qed


text \<open>
  C4. Slicing with batch size 10 returns; the batches are consecutive pieces of the
  payload in input order (their concatenation is the payload, the \<open>k\<close>-th batch holds
  the items from index \<open>10 * k\<close> on), each carries the ecosystem tag and holds between 1
  and 10 items, and 23 items give batches of sizes 10, 10 and 3.
\<close>

theorem slicePayload_batches:
  "\<exists>reqData. slicePayload payload 10 eco = Some reqData \<and>
     concat (map package_versions reqData) = payload \<and>
     list_all (\<lambda>b. ecosystem b = eco \<and> package_versions b \<noteq> [] \<and>
                    length (package_versions b) \<le> 10) reqData \<and>
     length reqData = (length payload + 9) div 10 \<and>
     (\<forall>k < length reqData. package_versions (reqData ! k) = take 10 (drop (10 * k) payload)) \<and>
     (length payload = 23 \<longrightarrow> map (\<lambda>b. length (package_versions b)) reqData = [10, 10, 3])"
proof -
  let ?mk = "\<lambda>c. \<lparr>ecosystem = eco, package_versions = c\<rparr>"
  let ?rq = "map ?mk (chunks 10 payload)"
  have res: "slicePayload payload 10 eco = Some ?rq"
    by (rule slicePayload_chunks) simp
  have pv: "map package_versions ?rq = chunks 10 payload"
    by (simp add: comp_def)
  have cat: "concat (map package_versions ?rq) = payload"
    by (simp only: pv concat_chunks [of 10 payload, simplified])
  have each: "list_all (\<lambda>b. ecosystem b = eco \<and> package_versions b \<noteq> [] \<and>
                    length (package_versions b) \<le> 10) ?rq"
    using chunks_bounds [of _ 10 payload] by (simp add: list_all_iff)
  have len: "length ?rq = (length payload + 9) div 10"
    using length_chunks [of 10 payload] by simp
  have nth: "\<forall>k < length ?rq. package_versions (?rq ! k) = take 10 (drop (10 * k) payload)"
    using chunks_nth [of 10 _ payload] by (simp add: mult.commute)
  have sizes: "length payload = 23 \<longrightarrow> map (\<lambda>b. length (package_versions b)) ?rq = [10, 10, 3]"
  proof
    assume l: "length payload = 23"
    then have ne: "payload \<noteq> []" "drop 10 payload \<noteq> []" "drop 20 payload \<noteq> []"
      by auto
    from l have "chunks 10 payload =
        [take 10 payload, take 10 (drop 10 payload), take 10 (drop 20 payload)]"
      by (simp add: chunks_step ne)
    with l show "map (\<lambda>b. length (package_versions b)) ?rq = [10, 10, 3]"
      by simp
  qed
  show ?thesis
    by (rule exI [of _ ?rq]) (intro conjI res cat each len nth sizes)
qed

theorem slicePayload_batches_witness:
  "slicePayload [0..<23] 10 ''npm'' =
     Some [\<lparr>ecosystem = ''npm'', package_versions = [0..<10]\<rparr>,
           \<lparr>ecosystem = ''npm'', package_versions = [10..<20]\<rparr>,
           \<lparr>ecosystem = ''npm'', package_versions = [20..<23]\<rparr>]"
proof -
  obtain rq :: "nat request list" where res: "slicePayload [0..<23] 10 ''npm'' = Some rq"
    and each: "list_all (\<lambda>b. ecosystem b = ''npm'' \<and> package_versions b \<noteq> [] \<and>
                    length (package_versions b) \<le> 10) rq"
    and len: "length rq = (length [0..<23] + 9) div 10"
    and nth: "\<forall>k < length rq. package_versions (rq ! k) = take 10 (drop (10 * k) [0..<23])"
    using slicePayload_batches [of "[0..<23]" "''npm''"] by blast
  from len have l3: "length rq = 3" by simp
  then obtain a b c where rq: "rq = [a, b, c]"
    by (auto simp: length_Suc_conv numeral_3_eq_3)
  from l3 nth [rule_format, of 0] nth [rule_format, of 1] nth [rule_format, of 2] rq
  have "package_versions a = take 10 (drop 0 [0..<23])"
    "package_versions b = take 10 (drop 10 [0..<23])"
    "package_versions c = take 10 (drop 20 [0..<23])"
    by (simp_all del: upt_rec_numeral drop_upt take_upt)
  then have pv: "package_versions a = [0..<10]" "package_versions b = [10..<20]"
    "package_versions c = [20..<23]"
    by simp_all
  from each rq have "ecosystem a = ''npm''" "ecosystem b = ''npm''" "ecosystem c = ''npm''"
    by simp_all
  with pv rq res show ?thesis by simp
qed

section \<open>Properties of the code-action handler\<close>

lemma codeAction_loop_result:
  "codeAction_loop cam src ds (acc, has) =
     (acc @ List.map_filter (\<lambda>d. cam (action_key d)) ds,
      has \<or> list_ex (\<lambda>d. source d = Some src) ds)"
proof (induction ds arbitrary: acc has)
  case Nil
  show ?case by (simp add: map_filter_simps)
next
  case (Cons d ds)
  show ?case
    by (cases "cam (action_key d)") (auto simp: Cons.IH map_filter_simps)
qed

lemma digit_char_inj:
  assumes "a < 10" and "b < 10" and "digit_char a = digit_char b"
  shows "a = b"
proof -
  have "distinct ''0123456789''" by simp
  moreover have "a < length ''0123456789''" "b < length ''0123456789''"
    using assms by simp_all
  ultimately show ?thesis
    using assms(3) unfolding digit_char_def by (simp only: nth_eq_iff_index_eq)
qed

lemma digit_char_digit: "a < 10 \<Longrightarrow> digit_char a \<in> set ''0123456789''"
  unfolding digit_char_def by (rule nth_mem) simp

lemma string_of_nat_digits: "set (string_of_nat n) \<subseteq> set ''0123456789''"
proof (induction n rule: string_of_nat.induct)
  case (1 n)
  show ?case
  proof (cases "n < 10")
    case True
    with digit_char_digit [of n] show ?thesis by (subst string_of_nat.simps) simp
  next
    case False
    have "n mod 10 < 10" by simp
    from digit_char_digit [OF this] 1 [OF False] False show ?thesis
      by (subst string_of_nat.simps) simp
  qed
qed

lemma string_of_nat_no_bar: "CHR ''|'' \<notin> set (string_of_nat n)"
  using string_of_nat_digits [of n] by auto

lemma string_of_nat_large:
  "\<not> n < 10 \<Longrightarrow> string_of_nat n = string_of_nat (n div 10) @ [digit_char (n mod 10)]"
  by (subst string_of_nat.simps) simp

lemma string_of_nat_inj: "string_of_nat n = string_of_nat m \<Longrightarrow> n = m"
proof (induction n arbitrary: m rule: string_of_nat.induct)
  case (1 n)
  have nonempty: "\<And>k. string_of_nat k \<noteq> []"
    by (subst string_of_nat.simps) simp
  show ?case
  proof (cases "n < 10")
    case True
    show ?thesis
    proof (cases "m < 10")
      case m: True
      from "1.prems" True m have "digit_char n = digit_char m"
        by (simp add: string_of_nat_digit)
      with True m show ?thesis by (rule digit_char_inj)
    next
      case m: False
      from "1.prems" True m have "[digit_char n] = string_of_nat (m div 10) @ [digit_char (m mod 10)]"
        by (simp add: string_of_nat_digit string_of_nat_large)
      with nonempty [of "m div 10"] show ?thesis by simp
    qed
  next
    case False
    show ?thesis
    proof (cases "m < 10")
      case m: True
      from "1.prems" False m have "string_of_nat (n div 10) @ [digit_char (n mod 10)] = [digit_char m]"
        by (simp add: string_of_nat_digit string_of_nat_large)
      with nonempty [of "n div 10"] show ?thesis by simp
    next
      case m: False
      from "1.prems" False m have
        "string_of_nat (n div 10) @ [digit_char (n mod 10)] =
         string_of_nat (m div 10) @ [digit_char (m mod 10)]"
        by (simp add: string_of_nat_large)
      then have hi: "string_of_nat (n div 10) = string_of_nat (m div 10)"
        and lo: "digit_char (n mod 10) = digit_char (m mod 10)" by simp_all
      from "1.IH" [OF False hi] have d: "n div 10 = m div 10" .
      have "n mod 10 = m mod 10" by (rule digit_char_inj [OF _ _ lo]) simp_all
      with d show ?thesis by (metis div_mult_mod_eq)
    qed
  qed
qed

lemma separator_unique:
  "x \<notin> set a \<Longrightarrow> a @ x # b = a' @ x # b' \<Longrightarrow> x \<notin> set a' \<Longrightarrow> a = a' \<and> b = b'"
proof (induction a arbitrary: a')
  case Nil
  then show ?case by (cases a') auto
next
  case (Cons y ys)
  then show ?case by (cases a') auto
qed

lemma key_determines_position:
  "(string_of_nat l @ ''|'' @ string_of_nat c = string_of_nat l' @ ''|'' @ string_of_nat c') =
   (l = l' \<and> c = c')"
proof
  assume "string_of_nat l @ ''|'' @ string_of_nat c = string_of_nat l' @ ''|'' @ string_of_nat c'"
  then have "string_of_nat l @ CHR ''|'' # string_of_nat c =
      string_of_nat l' @ CHR ''|'' # string_of_nat c'" by simp
  from separator_unique [OF string_of_nat_no_bar this string_of_nat_no_bar]
  show "l = l' \<and> c = c'" by (auto dest: string_of_nat_inj)
qed simp

text \<open>
  C10. The returned list holds, in the order of the request's diagnostics, the action
  the index has under the key made of the decimal start line, a bar and the decimal
  start character of each diagnostic (a diagnostic without such an entry adds
  nothing), followed by the report action exactly when the option is enabled and
  some diagnostic of the request has the analytics source. Two diagnostics have the
  same key exactly when they start at the same line and character.
\<close>

theorem onCodeAction_result:
  "onCodeAction provide_fullstack cam src diags =
     List.map_filter
       (\<lambda>d. cam (string_of_nat (line (range_start d)) @ ''|'' @
                 string_of_nat (character (range_start d)))) diags @
     (if provide_fullstack \<and> list_ex (\<lambda>d. source d = Some src) diags
      then [fullStackReportAction] else []) \<and>
   ((action_key d = action_key d') =
    (line (range_start d) = line (range_start d') \<and>
     character (range_start d) = character (range_start d')))"
proof
  have "onCodeAction provide_fullstack cam src diags =
     List.map_filter (\<lambda>d. cam (action_key d)) diags @
     (if provide_fullstack \<and> list_ex (\<lambda>d. source d = Some src) diags
      then [fullStackReportAction] else [])"
    by (simp add: onCodeAction_def codeAction_loop_result)
  then show "onCodeAction provide_fullstack cam src diags =
     List.map_filter
       (\<lambda>d. cam (string_of_nat (line (range_start d)) @ ''|'' @
                 string_of_nat (character (range_start d)))) diags @
     (if provide_fullstack \<and> list_ex (\<lambda>d. source d = Some src) diags
      then [fullStackReportAction] else [])"
    by (simp only: action_key_def)
next
  show "(action_key d = action_key d') =
    (line (range_start d) = line (range_start d') \<and>
     character (range_start d) = character (range_start d'))"
    unfolding action_key_def by (rule key_determines_position)
qed

theorem onCodeAction_result_witness:
  "onCodeAction True demo_index ''analytics'' demo_request =
     [switch_action ''2.0.1'', switch_action ''1.2.4'', fullStackReportAction] \<and>
   onCodeAction False demo_index ''analytics'' demo_request =
     [switch_action ''2.0.1'', switch_action ''1.2.4''] \<and>
   onCodeAction True demo_index ''analytics'' (tl demo_request) =
     [switch_action ''1.2.4'']"
proof -
  have k: "string_of_nat 12 = ''12''" "string_of_nat 105 = ''105''" "string_of_nat 3 = ''3''"
    "string_of_nat 4 = ''4''" "string_of_nat 0 = ''0''" "string_of_nat 7 = ''7''"
    by (simp_all add: string_of_nat.simps digit_char_def)
  note T = onCodeAction_result [where cam = demo_index and src = "''analytics''",
      THEN conjunct1]
  have 1: "onCodeAction True demo_index ''analytics'' demo_request =
     [switch_action ''2.0.1'', switch_action ''1.2.4'', fullStackReportAction]"
    unfolding T [of True demo_request]
    by (simp add: demo_request_def demo_index_def map_filter_simps k)
  have 2: "onCodeAction False demo_index ''analytics'' demo_request =
     [switch_action ''2.0.1'', switch_action ''1.2.4'']"
    unfolding T [of False demo_request]
    by (simp add: demo_request_def demo_index_def map_filter_simps k)
  have 3: "onCodeAction True demo_index ''analytics'' (tl demo_request) =
     [switch_action ''1.2.4'']"
    unfolding T [of True "tl demo_request"]
    by (simp add: demo_request_def demo_index_def map_filter_simps k)
  from 1 2 3 show ?thesis by (intro conjI)
qed

section \<open>Properties of the version validity filter\<close>

lemma in_class_alnum:
  "in_class [(CHR ''a'', CHR ''z''), (CHR ''A'', CHR ''Z''), (CHR ''0'', CHR ''9'')] c =
   alphanumeric c"
proof (cases c)
  case (Char b0 b1 b2 b3 b4 b5 b6 b7)
  show ?thesis
    unfolding Char in_class_def alphanumeric_def
    by (cases b0; cases b1; cases b2; cases b3; cases b4; cases b5; cases b6; cases b7; simp)
qed

lemma dot_not_alphanumeric: "\<not> alphanumeric (CHR ''.'')"
  by (simp add: alphanumeric_def)

lemma segment_no_dot: "segment seg \<Longrightarrow> CHR ''.'' \<notin> set seg"
  using dot_not_alphanumeric by (auto simp: segment_def list_all_iff)

lemma rmatch_Plus_class:
  "rmatch (Plus (CharClass R)) s k =
     (\<exists>pre rest. pre \<noteq> [] \<and> list_all (in_class R) pre \<and> s = pre @ rest \<and> k rest)"
proof (induction s)
  case Nil
  show ?case by simp
next
  case (Cons c cs)
  have "rmatch (Plus (CharClass R)) (c # cs) k =
          (in_class R c \<and> (rmatch (Plus (CharClass R)) cs k \<or> k cs))"
    by simp
  also have "\<dots> = (in_class R c \<and>
      ((\<exists>pre rest. pre \<noteq> [] \<and> list_all (in_class R) pre \<and> cs = pre @ rest \<and> k rest) \<or> k cs))"
    by (simp only: Cons.IH)
  also have "\<dots> =
      (\<exists>pre rest. pre \<noteq> [] \<and> list_all (in_class R) pre \<and> c # cs = pre @ rest \<and> k rest)"
  proof
    assume L: "in_class R c \<and>
      ((\<exists>pre rest. pre \<noteq> [] \<and> list_all (in_class R) pre \<and> cs = pre @ rest \<and> k rest) \<or> k cs)"
    then have c: "in_class R c" by simp
    from L consider
      (more) pre rest where "pre \<noteq> []" "list_all (in_class R) pre" "cs = pre @ rest" "k rest"
      | (one) "k cs" by blast
    then show "\<exists>pre rest. pre \<noteq> [] \<and> list_all (in_class R) pre \<and> c # cs = pre @ rest \<and> k rest"
    proof cases
      case more
      with c have "c # pre \<noteq> [] \<and> list_all (in_class R) (c # pre) \<and>
          c # cs = (c # pre) @ rest \<and> k rest" by simp
      then show ?thesis by blast
    next
      case one
      with c have "[c] \<noteq> [] \<and> list_all (in_class R) [c] \<and> c # cs = [c] @ cs \<and> k cs" by simp
      then show ?thesis by blast
    qed
  next
    assume "\<exists>pre rest. pre \<noteq> [] \<and> list_all (in_class R) pre \<and> c # cs = pre @ rest \<and> k rest"
    then obtain pre rest where p: "pre \<noteq> []" "list_all (in_class R) pre"
      "c # cs = pre @ rest" "k rest" by blast
    from p(1) obtain x xs where pre: "pre = x # xs" by (cases pre) auto
    with p have c: "in_class R c" and xs: "list_all (in_class R) xs" and cs: "cs = xs @ rest"
      by auto
    show "in_class R c \<and>
      ((\<exists>pre rest. pre \<noteq> [] \<and> list_all (in_class R) pre \<and> cs = pre @ rest \<and> k rest) \<or> k cs)"
    proof (cases "xs = []")
      case True
      with c cs p(4) show ?thesis by simp
    next
      case False
      with c xs cs p(4) show ?thesis by blast
    qed
  qed
  finally show ?case .
qed

lemma in_class_alnum_fun:
  "in_class [(CHR ''a'', CHR ''z''), (CHR ''A'', CHR ''Z''), (CHR ''0'', CHR ''9'')] = alphanumeric"
  by (rule ext) (rule in_class_alnum)

lemma rmatch_Plus_alnum:
  "rmatch (Plus alnum_class) s k = (\<exists>seg rest. segment seg \<and> s = seg @ rest \<and> k rest)"
  unfolding alnum_class_def rmatch_Plus_class in_class_alnum_fun segment_def
  by (simp only: conj_assoc)

lemma rmatch_group:
  "rmatch (Seq (Plus alnum_class) (Lit (CHR ''.''))) s k =
     (\<exists>seg rest. segment seg \<and> s = seg @ CHR ''.'' # rest \<and> k rest)"
proof -
  have "rmatch (Seq (Plus alnum_class) (Lit (CHR ''.''))) s k =
      (\<exists>seg rest'. segment seg \<and> s = seg @ rest' \<and>
         (case rest' of [] \<Rightarrow> False | c # cs \<Rightarrow> c = CHR ''.'' \<and> k cs))"
    by (simp add: rmatch_Plus_alnum del: rmatch.simps(5))
  also have "\<dots> = (\<exists>seg rest. segment seg \<and> s = seg @ CHR ''.'' # rest \<and> k rest)"
  proof
    assume "\<exists>seg rest'. segment seg \<and> s = seg @ rest' \<and>
         (case rest' of [] \<Rightarrow> False | c # cs \<Rightarrow> c = CHR ''.'' \<and> k cs)"
    then obtain seg rest' where h: "segment seg" "s = seg @ rest'"
      "case rest' of [] \<Rightarrow> False | c # cs \<Rightarrow> c = CHR ''.'' \<and> k cs" by blast
    from h(3) obtain cs where "rest' = CHR ''.'' # cs" "k cs"
      by (cases rest') auto
    with h show "\<exists>seg rest. segment seg \<and> s = seg @ CHR ''.'' # rest \<and> k rest" by blast
  next
    assume "\<exists>seg rest. segment seg \<and> s = seg @ CHR ''.'' # rest \<and> k rest"
    then obtain seg rest where h: "segment seg" "s = seg @ CHR ''.'' # rest" "k rest" by blast
    then have "segment seg \<and> s = seg @ (CHR ''.'' # rest) \<and>
         (case CHR ''.'' # rest of [] \<Rightarrow> False | c # cs \<Rightarrow> c = CHR ''.'' \<and> k cs)" by simp
    then show "\<exists>seg rest'. segment seg \<and> s = seg @ rest' \<and>
         (case rest' of [] \<Rightarrow> False | c # cs \<Rightarrow> c = CHR ''.'' \<and> k cs)" by blast
  qed
  finally show ?thesis .
qed

lemma rmatch_last: "rmatch (Plus alnum_class) s (\<lambda>rest. rest = []) = segment s"
  by (simp add: rmatch_Plus_alnum del: rmatch.simps(5))

lemma rmatch_Opt_group:
  "rmatch (Opt (Seq (Plus alnum_class) (Lit (CHR ''.'')))) s k =
     ((\<exists>seg rest. segment seg \<and> s = seg @ CHR ''.'' # rest \<and> k rest) \<or> k s)"
  by (simp only: rmatch.simps(4) rmatch_group)

lemma regex_test_segments: "regex_test regexVersion s = segments_upto 3 s"
  by (simp only: regex_test_def regexVersion_def rmatch.simps(3) rmatch_Opt_group rmatch_last
        segments_upto.simps numeral_3_eq_3)

lemma split_dots_not_Nil: "split_dots s \<noteq> []"
  by (induction s) (auto split: list.splits)

lemma split_dots_no_dot: "CHR ''.'' \<notin> set s \<Longrightarrow> split_dots s = [s]"
  by (induction s) auto

lemma split_dots_first:
  "CHR ''.'' \<notin> set seg \<Longrightarrow> split_dots (seg @ CHR ''.'' # rest) = seg # split_dots rest"
  by (induction seg) (auto split: list.splits simp: split_dots_not_Nil)

lemma first_dot_unique:
  "CHR ''.'' \<notin> set a \<Longrightarrow> a @ CHR ''.'' # b = a' @ CHR ''.'' # b' \<Longrightarrow> CHR ''.'' \<notin> set a' \<Longrightarrow>
   a = a' \<and> b = b'"
proof (induction a arbitrary: a')
  case Nil
  then show ?case by (cases a') auto
next
  case (Cons x xs)
  then show ?case by (cases a') auto
qed

lemma segments_upto_split:
  "segments_upto n s = (length (split_dots s) \<le> Suc n \<and> list_all segment (split_dots s))"
proof (induction n arbitrary: s)
  case 0
  show ?case
  proof (cases "CHR ''.'' \<in> set s")
    case False
    then show ?thesis by (simp add: split_dots_no_dot)
  next
    case True
    then obtain seg rest where s: "s = seg @ CHR ''.'' # rest" "CHR ''.'' \<notin> set seg"
      by (auto dest: split_list_first)
    from True have "\<not> segment s" using segment_no_dot by blast
    moreover from s have "length (split_dots s) \<ge> 2"
      using split_dots_not_Nil [of rest] by (cases "split_dots rest") (auto simp: split_dots_first)
    ultimately show ?thesis by simp
  qed
next
  case (Suc n)
  show ?case
  proof (cases "CHR ''.'' \<in> set s")
    case False
    then have no: "\<not> (\<exists>seg rest. segment seg \<and> s = seg @ CHR ''.'' # rest \<and> segments_upto n rest)"
      by auto
    have "segments_upto (Suc n) s = segments_upto n s"
      unfolding segments_upto.simps using no by blast
    also have "\<dots> = (length (split_dots s) \<le> Suc n \<and> list_all segment (split_dots s))"
      by (rule Suc.IH)
    also have "\<dots> = (length (split_dots s) \<le> Suc (Suc n) \<and> list_all segment (split_dots s))"
      using False by (simp add: split_dots_no_dot)
    finally show ?thesis .
  next
    case True
    then obtain seg0 rest0 where s: "s = seg0 @ CHR ''.'' # rest0" and nd: "CHR ''.'' \<notin> set seg0"
      by (auto dest: split_list_first)
    have sd: "split_dots s = seg0 # split_dots rest0"
      using s nd by (simp add: split_dots_first)
    have first: "(\<exists>seg rest. segment seg \<and> s = seg @ CHR ''.'' # rest \<and> segments_upto n rest) =
        (segment seg0 \<and> segments_upto n rest0)"
    proof
      assume "\<exists>seg rest. segment seg \<and> s = seg @ CHR ''.'' # rest \<and> segments_upto n rest"
      then obtain seg rest where h: "segment seg" "s = seg @ CHR ''.'' # rest" "segments_upto n rest"
        by blast
      from h(1) have "CHR ''.'' \<notin> set seg" by (rule segment_no_dot)
      moreover from h(2) s have "seg @ CHR ''.'' # rest = seg0 @ CHR ''.'' # rest0" by simp
      ultimately have "seg = seg0 \<and> rest = rest0"
        using nd by (rule first_dot_unique)
      with h show "segment seg0 \<and> segments_upto n rest0" by simp
    next
      assume "segment seg0 \<and> segments_upto n rest0"
      with s show "\<exists>seg rest. segment seg \<and> s = seg @ CHR ''.'' # rest \<and> segments_upto n rest"
        by blast
    qed
    have second: "segment seg0 \<and> segments_upto n rest0" if "segments_upto n s"
    proof -
      from that have "length (split_dots s) \<le> Suc n \<and> list_all segment (split_dots s)"
        by (simp only: Suc.IH [of s])
      with sd have "segment seg0" and "length (split_dots rest0) \<le> Suc n \<and>
          list_all segment (split_dots rest0)"
        by simp_all
      then show ?thesis by (simp only: Suc.IH [of rest0] simp_thms)
    qed
    have "segments_upto (Suc n) s = (segment seg0 \<and> segments_upto n rest0)"
      unfolding segments_upto.simps first using second by blast
    also have "\<dots> = (length (split_dots s) \<le> Suc (Suc n) \<and> list_all segment (split_dots s))"
      unfolding Suc.IH [of rest0] sd by auto
    finally show ?thesis .
  qed
qed

lemma regexVersion_pattern: "regex_test regexVersion s = version_pattern s"
  by (simp add: regex_test_segments segments_upto_split version_pattern_def Let_def)

section \<open>Properties of the analysis cycle\<close>

lemma sent_send [simp]: "sent (send m w) = sent w @ [m]"
  and cache_send [simp]: "cache (send m w) = cache w"
  and codeActions_send [simp]: "codeActions (send m w) = codeActions w"
  by (simp_all add: send_def)

lemma sent_opened:
  "sent (opened f w) =
     sent w @ [PublishDiagnostics f [], CaNotification (start_notification f)]"
  and cache_opened [simp]: "cache (opened f w) = cache w"
  by (simp_all add: opened_def)

lemma forEach_frame:
  "runPipeline_forEach M pkgs f rs (cy, w) = (res, cy', w') \<Longrightarrow>
     sent w' = sent w \<and> cache w' = cache w"
proof (induction rs arbitrary: cy w)
  case Nil
  then show ?case by simp
next
  case (Cons r rs)
  obtain a ds g items where p: "pipeline_run M f (pkgMap_get M pkgs (package r) (version r)) r
      (packageAggregator cy, diagnostics cy, codeActions w) = ((a, ds, g), items)"
    by (metis surj_pair)
  show ?case
  proof (cases items)
    case None
    with Cons.prems p show ?thesis by auto
  next
    case (Some its)
    with Cons.prems p have "runPipeline_forEach M pkgs f rs
        (cy\<lparr>diagnostics := ds, totalCount := fold add_counts its (totalCount cy),
            packageAggregator := a\<rparr>, w\<lparr>codeActions := g\<rparr>) = (res, cy', w')"
      by simp
    from Cons.IH [OF this] show ?thesis by simp
  qed
qed

lemma only_Publish:
  "list_all is_Publish ms \<Longrightarrow> \<not> list_ex is_Fetch ms \<and> \<not> list_ex is_CaError ms"
proof (induction ms)
  case Nil
  show ?case by simp
next
  case (Cons m ms)
  then show ?case by (cases m) simp_all
qed

lemma runPipeline_failed:
  "\<not> is_RespData resp \<Longrightarrow> runPipeline M pkgs f resp s = (Threw, s)"
  by (cases resp) (simp_all add: runPipeline_def)

lemma runPipeline_sent:
  assumes "runPipeline M pkgs f resp (cy, w) = (res, cy', w')"
  shows "cache w' = cache w \<and>
         sent w' = sent w @ (if res = Normal then [PublishDiagnostics f (diagnostics cy')] else [])"
proof (cases resp)
  case (RespData rs)
  obtain r1 cy1 w1 where fe: "runPipeline_forEach M pkgs f rs (cy, w) = (r1, cy1, w1)"
    by (metis prod_cases3)
  from forEach_frame [OF fe] have fr: "sent w1 = sent w" "cache w1 = cache w" by simp_all
  from assms RespData fe fr show ?thesis
    by (cases r1) (auto simp: runPipeline_def)
next
  case (RespStatus n)
  with assms show ?thesis by (auto simp: runPipeline_def)
next
  case RespUndefined
  with assms show ?thesis by (auto simp: runPipeline_def)
qed

text \<open>A failed batch: nothing but what \<^verbatim>\<open>cache.add\<close> does with the value.\<close>

lemma cacheAndRunPipeline_failed:
  assumes "\<not> is_RespData resp"
  shows "cacheAndRunPipeline M eco pkgs f resp (cy, w) =
           (Threw, cy, w\<lparr>cache := fst (cache_add M eco resp (cache w))\<rparr>)"
proof -
  obtain c r where ca: "cache_add M eco resp (cache w) = (c, r)" by (cases "cache_add M eco resp (cache w)")
  show ?thesis
    using ca runPipeline_failed [OF assms] by (cases r) (simp_all add: cacheAndRunPipeline_def)
qed

lemma cacheAndRunPipeline_sent:
  assumes "cacheAndRunPipeline M eco pkgs f resp (cy, w) = (res, cy', w')"
  shows "\<exists>ms. sent w' = sent w @ ms \<and> list_all is_Publish ms"
proof -
  obtain c r where ca: "cache_add M eco resp (cache w) = (c, r)" by (cases "cache_add M eco resp (cache w)")
  show ?thesis
  proof (cases r)
    case Threw
    with assms ca show ?thesis by (auto simp: cacheAndRunPipeline_def)
  next
    case Normal
    with assms ca have "runPipeline M pkgs f resp (cy, w\<lparr>cache := c\<rparr>) = (res, cy', w')"
      by (simp add: cacheAndRunPipeline_def)
    from runPipeline_sent [OF this] show ?thesis by (cases "res = Normal") auto
  qed
qed

lemma settle_sent:
  "settle M eco pkgs f resps (cy, w) = (cy', w') \<Longrightarrow>
     \<exists>ms. sent w' = sent w @ ms \<and> list_all is_Publish ms"
proof (induction resps arbitrary: cy w)
  case Nil
  then show ?case by simp
next
  case (Cons resp resps)
  obtain res cy1 w1 where st: "cacheAndRunPipeline M eco pkgs f resp (cy, w) = (res, cy1, w1)"
    by (metis prod_cases3)
  with Cons.prems have "settle M eco pkgs f resps (cy1, w1) = (cy', w')" by simp
  from Cons.IH [OF this] obtain ms where ms: "sent w' = sent w1 @ ms" "list_all is_Publish ms"
    by blast
  from cacheAndRunPipeline_sent [OF st] obtain ms1 where
    ms1: "sent w1 = sent w @ ms1" "list_all is_Publish ms1" by blast
  from ms ms1 have "sent w' = sent w @ (ms1 @ ms) \<and> list_all is_Publish (ms1 @ ms)" by simp
  then show ?case by blast
qed

text \<open>
  When \<^verbatim>\<open>cache.add\<close> leaves the store alone on a value that is no array, the failed
  batches can be struck from the run.
\<close>

lemma settle_successes:
  assumes benign: "\<And>r c. \<not> is_RespData r \<Longrightarrow> fst (cache_add M eco r c) = c"
  shows "settle M eco pkgs f resps s = settle M eco pkgs f (filter is_RespData resps) s"
proof (induction resps arbitrary: s)
  case Nil
  show ?case by simp
next
  case (Cons resp resps)
  obtain cy w where s: "s = (cy, w)" by (cases s)
  show ?case
  proof (cases "is_RespData resp")
    case True
    then show ?thesis by (simp add: Cons.IH)
  next
    case False
    then have "snd (cacheAndRunPipeline M eco pkgs f resp s) = s"
      by (simp add: s cacheAndRunPipeline_failed benign)
    with False show ?thesis by (simp add: Cons.IH)
  qed
qed

lemma allRequests_result:
  "allRequests net mh k reqs w =
     (map (\<lambda>i. resolved_value (outcome net (k + i))) [0..<length reqs],
      w\<lparr>sent := sent w @ map (\<lambda>rq. Fetch rq mh (requestId net)) reqs\<rparr>)"
proof (induction reqs arbitrary: k w)
  case Nil
  show ?case by simp
next
  case (Cons rq reqs)
  have "map (\<lambda>i. resolved_value (outcome net (k + i))) [0..<length (rq # reqs)] =
        resolved_value (outcome net k) #
        map (\<lambda>i. resolved_value (outcome net (Suc k + i))) [0..<length reqs]"
    by (simp add: upt_conv_Cons map_Suc_upt [symmetric] del: upt_Suc)
  then show ?case
    by (simp add: Cons.IH fetchVulnerabilities_def send_def)
qed

lemma settle_order_set: "set (settle_order sel xs) \<subseteq> set xs"
proof (induction sel xs rule: settle_order.induct)
  case (1 sel pending)
  show ?case
  proof (cases "pending = []")
    case True
    then show ?thesis by (simp add: settle_order.simps)
  next
    case False
    then have "pending ! (sel pending mod length pending) \<in> set pending" by simp
    moreover from 1 [OF False] have "set (settle_order sel
        (remove1 (pending ! (sel pending mod length pending)) pending)) \<subseteq> set pending"
      using set_remove1_subset by fastforce
    ultimately show ?thesis using False by (subst settle_order.simps) simp
  qed
qed

lemma settle_order_once:
  "distinct xs \<Longrightarrow> distinct (settle_order sel xs) \<and> set (settle_order sel xs) = set xs"
proof (induction sel xs rule: settle_order.induct)
  case (1 sel pending)
  show ?case
  proof (cases "pending = []")
    case True
    then show ?thesis by (simp add: settle_order.simps)
  next
    case False
    let ?k = "pending ! (sel pending mod length pending)"
    from False have k: "?k \<in> set pending" by simp
    from "1.prems" have "distinct (remove1 ?k pending)" by simp
    from "1.IH" [OF False this] "1.prems"
    have IH: "distinct (settle_order sel (remove1 ?k pending))"
      "set (settle_order sel (remove1 ?k pending)) = set pending - {?k}"
      by simp_all
    have "settle_order sel pending = ?k # settle_order sel (remove1 ?k pending)"
      using False by (subst settle_order.simps) simp
    with IH k show ?thesis by auto
  qed
qed

lemma settled_values_eq:
  "map (\<lambda>k. map (\<lambda>i. resolved_value (outcome net i)) [0..<n] ! k) (settle_order (pick net) [0..<n]) =
   settled_values net n"
proof -
  have "\<forall>k \<in> set (settle_order (pick net) [0..<n]). k < n"
    using settle_order_set [of "pick net" "[0..<n]"] by auto
  then show ?thesis by (simp add: settled_values_def)
qed

lemma hits_run_sent:
  assumes "hits_run M eco f deps w0 = (res, cy1, w3)"
  shows "cache w3 = cache w0 \<and>
     sent w3 = sent w0 @ [PublishDiagnostics f [], CaNotification (start_notification f)] @
       (if res = Normal then [PublishDiagnostics f (diagnostics cy1)] else [])"
  using runPipeline_sent [OF assms [unfolded hits_run_def]] by (simp add: sent_opened)

text \<open>The three ways a call of \<^verbatim>\<open>sendDiagnostics\<close> can go.\<close>

lemma sendDiagnostics_aborted:
  assumes "collect contents = Inl err"
  shows "sendDiagnostics M net eco f contents collect w0 =
           Some (Aborted, send (CaError err f) (opened f w0))"
  using assms by (simp add: sendDiagnostics_def opened_def)

lemma sendDiagnostics_rejected:
  assumes "collect contents = Inr deps"
    and "hits_run M eco f deps w0 = (Threw, cy1, w3)"
  shows "sendDiagnostics M net eco f contents collect w0 = Some (Rejected, w3)"
  using assms by (simp add: sendDiagnostics_def hits_run_def opened_def Let_def)

lemma sendDiagnostics_completed:
  assumes "collect contents = Inr deps"
    and "hits_run M eco f deps w0 = (Normal, cy1, w3)"
  shows "sendDiagnostics M net eco f contents collect w0 =
     (case settle M eco (validPackages eco deps) f
             (settled_values net (length (batches M eco deps (cache w0))))
             (cy1, w3\<lparr>sent := sent w3 @
                 map (\<lambda>rq. Fetch rq (sha256_hex M f) (requestId net))
                   (batches M eco deps (cache w0))\<rparr>) of
        (cy2, w5) \<Rightarrow>
          Some (Completed (diagnostics cy2) (totalCount cy2),
                send (CaNotification
                       (summary_notification deps (diagnostics cy2) (totalCount cy2) f)) w5))"
proof -
  let ?pkgs = "validPackages eco deps"
  let ?items = "cache_get M eco (cache w0) ?pkgs"
  have hits: "runPipeline M ?pkgs f (RespData (cachedValues ?items))
      (new_cycle M eco, send (CaNotification (start_notification f))
         (send (PublishDiagnostics f []) w0)) = (Normal, cy1, w3)"
    using assms(2) by (simp add: hits_run_def opened_def)
  have sl: "slicePayload (requestPayload (missedItems ?items)) 10 eco =
      Some (batches M eco deps (cache w0))"
    by (simp add: slicePayload_chunks batches_def)
  have sv: "map (\<lambda>k. map (\<lambda>i. resolved_value (outcome net i))
          [0..<length (batches M eco deps (cache w0))] ! k)
        (settle_order (pick net) [0..<length (batches M eco deps (cache w0))]) =
      settled_values net (length (batches M eco deps (cache w0)))"
    by (rule settled_values_eq)
  show ?thesis
    using assms(1) by (simp add: sendDiagnostics_def Let_def hits sl allRequests_result sv)
qed

text \<open>
  C1. When the collector succeeds and the pipeline runs through on the cache hits, the
  call completes whatever the batches' POSTs do: each batch is posted once, every
  batch settles once, the batches whose POST failed (a status outside 200 to 299, or a
  transport failure) leave the diagnostics, the counters and the connection as they
  were, so the final state is the one reached from the successful batches alone, and
  the last message is the summary notification with the diagnostics and counters so
  accumulated. (\<^verbatim>\<open>cache.add\<close> is taken to leave the store alone when handed a value
  that is no array.)
\<close>

theorem failed_batch_contributes_nothing:
  assumes collected: "collect contents = Inr deps"
    and hits: "hits_run M eco f deps w0 = (Normal, cy1, w3)"
    and benign: "\<forall>r c. \<not> is_RespData r \<longrightarrow> fst (cache_add M eco r c) = c"
  shows "\<exists>cy2 w5.
     settle M eco (validPackages eco deps) f
       (filter is_RespData (settled_values net (length (batches M eco deps (cache w0)))))
       (cy1, w3\<lparr>sent := sent w3 @
           map (\<lambda>rq. Fetch rq (sha256_hex M f) (requestId net))
             (batches M eco deps (cache w0))\<rparr>) = (cy2, w5) \<and>
     sendDiagnostics M net eco f contents collect w0 =
       Some (Completed (diagnostics cy2) (totalCount cy2),
             send (CaNotification
                    (summary_notification deps (diagnostics cy2) (totalCount cy2) f)) w5) \<and>
     filter is_Fetch (sent w5) =
       filter is_Fetch (sent w0) @
       map (\<lambda>rq. Fetch rq (sha256_hex M f) (requestId net)) (batches M eco deps (cache w0)) \<and>
     distinct (settle_order (pick net) [0..<length (batches M eco deps (cache w0))]) \<and>
     set (settle_order (pick net) [0..<length (batches M eco deps (cache w0))]) =
       {0..<length (batches M eco deps (cache w0))}"
proof -
  let ?bs = "batches M eco deps (cache w0)"
  let ?posts = "map (\<lambda>rq. Fetch rq (sha256_hex M f) (requestId net)) ?bs"
  let ?start = "(cy1, w3\<lparr>sent := sent w3 @ ?posts\<rparr>)"
  obtain cy2 w5 where st: "settle M eco (validPackages eco deps) f
       (filter is_RespData (settled_values net (length ?bs))) ?start = (cy2, w5)"
    by (metis surj_pair)
  have all: "settle M eco (validPackages eco deps) f (settled_values net (length ?bs)) ?start =
      (cy2, w5)"
  proof -
    have "settle M eco (validPackages eco deps) f (settled_values net (length ?bs)) ?start =
        settle M eco (validPackages eco deps) f
          (filter is_RespData (settled_values net (length ?bs))) ?start"
      by (rule settle_successes) (simp add: benign)
    with st show ?thesis by simp
  qed
  have res: "sendDiagnostics M net eco f contents collect w0 =
       Some (Completed (diagnostics cy2) (totalCount cy2),
             send (CaNotification
                    (summary_notification deps (diagnostics cy2) (totalCount cy2) f)) w5)"
    by (simp add: sendDiagnostics_completed [of collect contents, OF collected hits] all)
  from settle_sent [OF st] obtain ms where
    ms: "sent w5 = (sent w3 @ ?posts) @ ms" "list_all is_Publish ms"
    by auto
  have posts: "filter is_Fetch ?posts = ?posts"
    by (induction ?bs) (simp_all add: filter_map comp_def)
  have nof: "filter is_Fetch ms = []"
    using only_Publish [OF ms(2)] by (simp add: filter_empty_conv list_ex_iff)
  from hits_run_sent [OF hits] have "filter is_Fetch (sent w3) = filter is_Fetch (sent w0)"
    by simp
  with ms(1) posts nof have fetches: "filter is_Fetch (sent w5) = filter is_Fetch (sent w0) @ ?posts"
    by simp
  have once: "distinct (settle_order (pick net) [0..<length ?bs]) \<and>
      set (settle_order (pick net) [0..<length ?bs]) = {0..<length ?bs}"
    using settle_order_once [of "[0..<length ?bs]" "pick net"] by simp
  from st res fetches once show ?thesis by blast
qed

section \<open>The cycle on the small instance\<close>

lemma demo_deps_eval:
  "demo_deps =
     [\<lparr>name_value = ''p0'', version_value = ''1.0.0''\<rparr>,
      \<lparr>name_value = ''p1'', version_value = ''1.0.0''\<rparr>,
      \<lparr>name_value = ''p2'', version_value = ''1.0.0''\<rparr>,
      \<lparr>name_value = ''p3'', version_value = ''1.0.0''\<rparr>,
      \<lparr>name_value = ''p4'', version_value = ''1.0.0''\<rparr>,
      \<lparr>name_value = ''p5'', version_value = ''1.0.0''\<rparr>,
      \<lparr>name_value = ''p6'', version_value = ''1.0.0''\<rparr>,
      \<lparr>name_value = ''p7'', version_value = ''1.0.0''\<rparr>,
      \<lparr>name_value = ''p8'', version_value = ''1.0.0''\<rparr>,
      \<lparr>name_value = ''p9'', version_value = ''1.0.0''\<rparr>,
      \<lparr>name_value = ''p10'', version_value = ''1.0.0''\<rparr>]"
  by (simp add: demo_deps_def string_of_nat.simps digit_char_def upt_rec)

lemma version_100: "regex_test regexVersion (trim ''1.0.0'')"
  by (simp add: regexVersion_pattern version_pattern_def trim_def is_white_space_def
        segment_def alphanumeric_def)

lemma demo_valid: "validPackages ''npm'' demo_deps = demo_deps"
  by (simp add: validPackages_def demo_deps_def version_100)

lemma demo_hits:
  "hits_run demo_modules ''npm'' ''package.json'' demo_deps empty_world =
     (Normal, \<lparr>diagnostics = [], totalCount = new_TotalCount, packageAggregator = ()\<rparr>,
      \<lparr>cache = [], codeActions = (),
       sent = [PublishDiagnostics ''package.json'' [],
               CaNotification (start_notification ''package.json''),
               PublishDiagnostics ''package.json'' []]\<rparr>)"
  by (simp add: hits_run_def demo_valid demo_modules_def empty_world_def cachedValues_def
        map_filter_def comp_def runPipeline_def opened_def send_def new_cycle_def)

lemma demo_batches:
  "batches demo_modules ''npm'' demo_deps [] =
     [\<lparr>ecosystem = ''npm'', package_versions =
         [\<lparr>package = ''p0'', version = ''1.0.0''\<rparr>, \<lparr>package = ''p1'', version = ''1.0.0''\<rparr>,
          \<lparr>package = ''p2'', version = ''1.0.0''\<rparr>, \<lparr>package = ''p3'', version = ''1.0.0''\<rparr>,
          \<lparr>package = ''p4'', version = ''1.0.0''\<rparr>, \<lparr>package = ''p5'', version = ''1.0.0''\<rparr>,
          \<lparr>package = ''p6'', version = ''1.0.0''\<rparr>, \<lparr>package = ''p7'', version = ''1.0.0''\<rparr>,
          \<lparr>package = ''p8'', version = ''1.0.0''\<rparr>, \<lparr>package = ''p9'', version = ''1.0.0''\<rparr>]\<rparr>,
      \<lparr>ecosystem = ''npm'', package_versions = [\<lparr>package = ''p10'', version = ''1.0.0''\<rparr>]\<rparr>]"
  by (simp only: batches_def demo_valid)
     (simp add: demo_modules_def missedItems_def requestPayload_def comp_def demo_deps_eval
        chunks.simps)

lemma demo_settled:
  "settled_values demo_network 2 =
     [RespStatus 500, RespData [\<lparr>package = ''p10'', version = ''1.0.0''\<rparr>]]"
  by (simp add: settled_values_def demo_network_def settle_order.simps resolved_value_def
        upt_rec numeral_2_eq_2)

lemma demo_benign:
  "\<forall>r c. \<not> is_RespData r \<longrightarrow> fst (cache_add demo_modules ''npm'' r c) = c"
proof (intro allI impI)
  fix r :: "package_version response" and c
  assume "\<not> is_RespData r"
  then show "fst (cache_add demo_modules ''npm'' r c) = c"
    by (cases r) (simp_all add: demo_modules_def)
qed

lemma demo_settle:
  "settle demo_modules ''npm'' demo_deps ''package.json''
     [RespData [\<lparr>package = ''p10'', version = ''1.0.0''\<rparr>]]
     (\<lparr>diagnostics = [], totalCount = new_TotalCount, packageAggregator = ()\<rparr>,
      \<lparr>cache = [], codeActions = (), sent = ms\<rparr>) =
   (\<lparr>diagnostics = [''p10''],
     totalCount = \<lparr>vulnerabilityCount = 1, advisoryCount = 0, exploitCount = 0\<rparr>,
     packageAggregator = ()\<rparr>,
    \<lparr>cache = [\<lparr>package = ''p10'', version = ''1.0.0''\<rparr>], codeActions = (),
     sent = ms @ [PublishDiagnostics ''package.json'' [''p10'']]\<rparr>)"
  by (simp add: cacheAndRunPipeline_def runPipeline_def demo_modules_def send_def
        add_counts_def new_TotalCount_def)

theorem failed_batch_contributes_nothing_witness:
  "sendDiagnostics demo_modules demo_network ''npm'' ''package.json'' ''{}'' demo_collect
     empty_world =
   Some (Completed [''p10'']
           \<lparr>vulnerabilityCount = 1, advisoryCount = 0, exploitCount = 0\<rparr>,
         \<lparr>cache = [\<lparr>package = ''p10'', version = ''1.0.0''\<rparr>], codeActions = (),
          sent =
            [PublishDiagnostics ''package.json'' [],
             CaNotification (start_notification ''package.json''),
             PublishDiagnostics ''package.json'' []] @
            map (\<lambda>rq. Fetch rq ''sha256:package.json'' ''req-1'')
              (batches demo_modules ''npm'' demo_deps []) @
            [PublishDiagnostics ''package.json'' [''p10''],
             CaNotification
               \<lparr>data = ''Scanned 11 dependencies, flagged 1 Known Security Vulnerability along with quick fixes'',
                diagCount = Some 1,
                vulnCount = Some \<lparr>vulnerabilityCount = 1, advisoryCount = 0, exploitCount = 0\<rparr>,
                depCount = Some 11, is_done = True, uri = ''package.json''\<rparr>]\<rparr>)"
proof -
  have c: "demo_collect ''{}'' = Inr demo_deps" by (simp add: demo_collect_def)
  have w0: "cache empty_world = []" by (simp add: empty_world_def)
  have len: "length (batches demo_modules ''npm'' demo_deps []) = 2"
    by (simp add: demo_batches)
  have h: "sha256_hex demo_modules ''package.json'' = ''sha256:package.json''"
    "requestId demo_network = ''req-1''"
    by (simp_all add: demo_modules_def demo_network_def)
  have ev: "settle demo_modules ''npm'' (validPackages ''npm'' demo_deps) ''package.json''
       (filter is_RespData (settled_values demo_network
          (length (batches demo_modules ''npm'' demo_deps (cache empty_world)))))
       (\<lparr>diagnostics = [], totalCount = new_TotalCount, packageAggregator = ()\<rparr>,
        \<lparr>cache = [], codeActions = (),
          sent = [PublishDiagnostics ''package.json'' [],
               CaNotification (start_notification ''package.json''),
               PublishDiagnostics ''package.json'' []]\<rparr>
        \<lparr>sent := sent \<lparr>cache = [], codeActions = (),
          sent = [PublishDiagnostics ''package.json'' [],
               CaNotification (start_notification ''package.json''),
               PublishDiagnostics ''package.json'' []]\<rparr> @
           map (\<lambda>rq. Fetch rq (sha256_hex demo_modules ''package.json'') (requestId demo_network))
             (batches demo_modules ''npm'' demo_deps (cache empty_world))\<rparr>) =
    (\<lparr>diagnostics = [''p10''],
      totalCount = \<lparr>vulnerabilityCount = 1, advisoryCount = 0, exploitCount = 0\<rparr>,
      packageAggregator = ()\<rparr>,
     \<lparr>cache = [\<lparr>package = ''p10'', version = ''1.0.0''\<rparr>], codeActions = (),
      sent = ([PublishDiagnostics ''package.json'' [],
               CaNotification (start_notification ''package.json''),
               PublishDiagnostics ''package.json'' []] @
             map (\<lambda>rq. Fetch rq ''sha256:package.json'' ''req-1'')
               (batches demo_modules ''npm'' demo_deps [])) @
            [PublishDiagnostics ''package.json'' [''p10'']]\<rparr>)"
    by (simp only: w0 len demo_settled demo_valid h filter.simps is_RespData.simps if_True if_False
          demo_settle world.simps world.update_convs)
  note T = failed_batch_contributes_nothing [of demo_collect "''{}''", OF c demo_hits demo_benign,
      of demo_network, unfolded ev]
  from T have res: "sendDiagnostics demo_modules demo_network ''npm'' ''package.json'' ''{}''
        demo_collect empty_world =
       Some (Completed [''p10''] \<lparr>vulnerabilityCount = 1, advisoryCount = 0, exploitCount = 0\<rparr>,
             send (CaNotification
                    (summary_notification demo_deps [''p10'']
                       \<lparr>vulnerabilityCount = 1, advisoryCount = 0, exploitCount = 0\<rparr>
                       ''package.json''))
              \<lparr>cache = [\<lparr>package = ''p10'', version = ''1.0.0''\<rparr>], codeActions = (),
      sent = ([PublishDiagnostics ''package.json'' [],
               CaNotification (start_notification ''package.json''),
               PublishDiagnostics ''package.json'' []] @
             map (\<lambda>rq. Fetch rq ''sha256:package.json'' ''req-1'')
               (batches demo_modules ''npm'' demo_deps [])) @
            [PublishDiagnostics ''package.json'' [''p10'']]\<rparr>)"
    by (elim exE conjE) simp
  have msg: "getCAmsg demo_deps [''p10'']
      \<lparr>vulnerabilityCount = 1, advisoryCount = 0, exploitCount = 0\<rparr> =
    ''Scanned 11 dependencies, flagged 1 Known Security Vulnerability along with quick fixes''"
    by (simp add: getCAmsg_def demo_deps_def vulStr_def string_of_nat.simps digit_char_def)
  have len11: "length demo_deps = 11" by (simp add: demo_deps_def)
  show ?thesis
    unfolding res
    by (simp only: summary_notification_def msg) (simp add: send_def len11)
qed

section \<open>Ordering, parse errors and the version filter in a cycle\<close>

lemma cycle_messages:
  "case collect contents of
     Inl err \<Rightarrow>
       sendDiagnostics M net eco f contents collect w0 =
         Some (Aborted,
               w0\<lparr>sent := sent w0 @
                  [PublishDiagnostics f [], CaNotification (start_notification f),
                   CaError err f]\<rparr>)
   | Inr deps \<Rightarrow>
       (case hits_run M eco f deps w0 of
          (Threw, cy1, w3) \<Rightarrow>
            sendDiagnostics M net eco f contents collect w0 = Some (Rejected, w3) \<and>
            sent w3 = sent w0 @ [PublishDiagnostics f [], CaNotification (start_notification f)]
        | (Normal, cy1, w3) \<Rightarrow>
            (\<exists>cy2 w5 pubs.
               settle M eco (validPackages eco deps) f
                 (settled_values net (length (batches M eco deps (cache w0))))
                 (cy1, w3\<lparr>sent := sent w3 @
                    map (\<lambda>rq. Fetch rq (sha256_hex M f) (requestId net))
                      (batches M eco deps (cache w0))\<rparr>) = (cy2, w5) \<and>
               sendDiagnostics M net eco f contents collect w0 =
                 Some (Completed (diagnostics cy2) (totalCount cy2),
                       send (CaNotification
                              (summary_notification deps (diagnostics cy2) (totalCount cy2) f))
                         w5) \<and>
               sent (send (CaNotification
                             (summary_notification deps (diagnostics cy2) (totalCount cy2) f))
                       w5) =
                 sent w0 @
                 [PublishDiagnostics f [], CaNotification (start_notification f),
                  PublishDiagnostics f (diagnostics cy1)] @
                 map (\<lambda>rq. Fetch rq (sha256_hex M f) (requestId net))
                   (batches M eco deps (cache w0)) @
                 pubs @
                 [CaNotification
                    (summary_notification deps (diagnostics cy2) (totalCount cy2) f)] \<and>
               list_all is_Publish pubs))"
proof (cases "collect contents")
  case (Inl err)
  then show ?thesis
    by (simp add: sendDiagnostics_aborted [of collect contents] opened_def send_def)
next
  case (Inr deps)
  obtain res cy1 w3 where h: "hits_run M eco f deps w0 = (res, cy1, w3)"
    by (metis surj_pair)
  show ?thesis
  proof (cases res)
    case Threw
    with h hits_run_sent [OF h] sendDiagnostics_rejected [of collect contents, OF Inr]
    show ?thesis using Inr by simp
  next
    case Normal
    let ?posts = "map (\<lambda>rq. Fetch rq (sha256_hex M f) (requestId net))
        (batches M eco deps (cache w0))"
    obtain cy2 w5 where st: "settle M eco (validPackages eco deps) f
        (settled_values net (length (batches M eco deps (cache w0))))
        (cy1, w3\<lparr>sent := sent w3 @ ?posts\<rparr>) = (cy2, w5)"
      by (metis surj_pair)
    from settle_sent [OF st] obtain pubs where
      pubs: "sent w5 = (sent w3 @ ?posts) @ pubs" "list_all is_Publish pubs"
      by auto
    from h Normal have hn: "hits_run M eco f deps w0 = (Normal, cy1, w3)" by simp
    have res: "sendDiagnostics M net eco f contents collect w0 =
        Some (Completed (diagnostics cy2) (totalCount cy2),
              send (CaNotification
                     (summary_notification deps (diagnostics cy2) (totalCount cy2) f)) w5)"
      by (simp add: sendDiagnostics_completed [of collect contents, OF Inr hn] st)
    have tr: "sent (send (CaNotification
                     (summary_notification deps (diagnostics cy2) (totalCount cy2) f)) w5) =
        sent w0 @
        [PublishDiagnostics f [], CaNotification (start_notification f),
         PublishDiagnostics f (diagnostics cy1)] @ ?posts @
        pubs @ [CaNotification (summary_notification deps (diagnostics cy2) (totalCount cy2) f)]"
      using hits_run_sent [OF hn] pubs(1) by simp
    from st res tr pubs(2) have "\<exists>cy2 w5 pubs.
               settle M eco (validPackages eco deps) f
                 (settled_values net (length (batches M eco deps (cache w0))))
                 (cy1, w3\<lparr>sent := sent w3 @ ?posts\<rparr>) = (cy2, w5) \<and>
               sendDiagnostics M net eco f contents collect w0 =
                 Some (Completed (diagnostics cy2) (totalCount cy2),
                       send (CaNotification
                              (summary_notification deps (diagnostics cy2) (totalCount cy2) f))
                         w5) \<and>
               sent (send (CaNotification
                             (summary_notification deps (diagnostics cy2) (totalCount cy2) f))
                       w5) =
                 sent w0 @
                 [PublishDiagnostics f [], CaNotification (start_notification f),
                  PublishDiagnostics f (diagnostics cy1)] @ ?posts @
                 pubs @
                 [CaNotification
                    (summary_notification deps (diagnostics cy2) (totalCount cy2) f)] \<and>
               list_all is_Publish pubs"
      by blast
    with Inr hn show ?thesis by simp
  qed
qed

text \<open>
  C2. In every cycle the pipeline runs on the cache hits, and their diagnostics are
  published, before the first batch is posted, hence before any batch is answered.
  The hits are the records the cache returns for the valid packages, in their order;
  the batches are built from the packages it returns no record for. If the collector
  rejects, or the pipeline throws on the hits, nothing is posted at all. Otherwise
  the messages of the cycle are the two opening messages, the publication of the
  diagnostics the pipeline produced from the hits and an empty diagnostics list
  (computed without the network), the posts of the batches, the publications of the
  batches that settle, and the summary.
\<close>

theorem hits_published_before_batches:
  "case collect contents of
     Inl err \<Rightarrow>
       sendDiagnostics M net eco f contents collect w0 =
         Some (Aborted,
               w0\<lparr>sent := sent w0 @
                  [PublishDiagnostics f [], CaNotification (start_notification f),
                   CaError err f]\<rparr>)
   | Inr deps \<Rightarrow>
       (let pkgs = validPackages eco deps;
            cachedItems = cache_get M eco (cache w0) pkgs;
            hits = List.map_filter snd cachedItems;
            misses = map fst (filter (\<lambda>c. snd c = None) cachedItems);
            reqs = map (\<lambda>items. \<lparr>ecosystem = eco, package_versions = items\<rparr>)
                     (chunks 10
                        (map (\<lambda>d. \<lparr>package = name_value d, version = version_value d\<rparr>)
                           misses));
            posts = map (\<lambda>rq. Fetch rq (sha256_hex M f) (requestId net)) reqs
        in case runPipeline M pkgs f (RespData hits)
                  (\<lparr>diagnostics = [], totalCount = new_TotalCount,
                    packageAggregator =
                      new_aggregator M
                        (if eco \<noteq> ''golang'' then NoopVulnerabilityAggregator
                         else GolangVulnerabilityAggregator)\<rparr>,
                   w0\<lparr>sent := sent w0 @
                      [PublishDiagnostics f [], CaNotification (start_notification f)]\<rparr>) of
             (Threw, cy1, w3) \<Rightarrow>
               sendDiagnostics M net eco f contents collect w0 = Some (Rejected, w3) \<and>
               sent w3 =
                 sent w0 @ [PublishDiagnostics f [], CaNotification (start_notification f)]
           | (Normal, cy1, w3) \<Rightarrow>
               (\<exists>cy2 w5 pubs.
                  settle M eco pkgs f
                    (map (\<lambda>k. resolved_value (outcome net k))
                       (settle_order (pick net) [0..<length reqs]))
                    (cy1, w3\<lparr>sent := sent w3 @ posts\<rparr>) = (cy2, w5) \<and>
                  sendDiagnostics M net eco f contents collect w0 =
                    Some (Completed (diagnostics cy2) (totalCount cy2),
                          send (CaNotification
                                 (summary_notification deps (diagnostics cy2)
                                    (totalCount cy2) f)) w5) \<and>
                  sent (send (CaNotification
                                (summary_notification deps (diagnostics cy2)
                                   (totalCount cy2) f)) w5) =
                    sent w0 @
                    [PublishDiagnostics f [], CaNotification (start_notification f),
                     PublishDiagnostics f (diagnostics cy1)] @
                    posts @ pubs @
                    [CaNotification
                       (summary_notification deps (diagnostics cy2) (totalCount cy2) f)] \<and>
                  list_all is_Publish pubs))"
proof (cases "collect contents")
  case (Inl err)
  with cycle_messages [where collect = collect and contents = contents and M = M and net = net
      and eco = eco and f = f and ?w0.0 = w0] show ?thesis by simp
next
  case (Inr deps)
  have h: "hits_run M eco f deps w0 =
      runPipeline M (validPackages eco deps) f
        (RespData (List.map_filter snd (cache_get M eco (cache w0) (validPackages eco deps))))
        (\<lparr>diagnostics = [], totalCount = new_TotalCount,
          packageAggregator =
            new_aggregator M
              (if eco \<noteq> ''golang'' then NoopVulnerabilityAggregator
               else GolangVulnerabilityAggregator)\<rparr>,
         w0\<lparr>sent := sent w0 @
            [PublishDiagnostics f [], CaNotification (start_notification f)]\<rparr>)"
    by (simp add: hits_run_def cachedValues_def new_cycle_def opened_def send_def)
  have b: "batches M eco deps (cache w0) =
      map (\<lambda>items. \<lparr>ecosystem = eco, package_versions = items\<rparr>)
        (chunks 10
           (map (\<lambda>d. \<lparr>package = name_value d, version = version_value d\<rparr>)
              (map fst (filter (\<lambda>c. snd c = None)
                 (cache_get M eco (cache w0) (validPackages eco deps))))))"
    by (simp only: batches_def requestPayload_def missedItems_def)
  from cycle_messages [where collect = collect and contents = contents and M = M and net = net
      and eco = eco and f = f and ?w0.0 = w0] Inr
  have "case hits_run M eco f deps w0 of
          (Threw, cy1, w3) \<Rightarrow>
            sendDiagnostics M net eco f contents collect w0 = Some (Rejected, w3) \<and>
            sent w3 = sent w0 @ [PublishDiagnostics f [], CaNotification (start_notification f)]
        | (Normal, cy1, w3) \<Rightarrow>
            (\<exists>cy2 w5 pubs.
               settle M eco (validPackages eco deps) f
                 (settled_values net (length (batches M eco deps (cache w0))))
                 (cy1, w3\<lparr>sent := sent w3 @
                    map (\<lambda>rq. Fetch rq (sha256_hex M f) (requestId net))
                      (batches M eco deps (cache w0))\<rparr>) = (cy2, w5) \<and>
               sendDiagnostics M net eco f contents collect w0 =
                 Some (Completed (diagnostics cy2) (totalCount cy2),
                       send (CaNotification
                              (summary_notification deps (diagnostics cy2) (totalCount cy2) f))
                         w5) \<and>
               sent (send (CaNotification
                             (summary_notification deps (diagnostics cy2) (totalCount cy2) f))
                       w5) =
                 sent w0 @
                 [PublishDiagnostics f [], CaNotification (start_notification f),
                  PublishDiagnostics f (diagnostics cy1)] @
                 map (\<lambda>rq. Fetch rq (sha256_hex M f) (requestId net))
                   (batches M eco deps (cache w0)) @
                 pubs @
                 [CaNotification
                    (summary_notification deps (diagnostics cy2) (totalCount cy2) f)] \<and>
               list_all is_Publish pubs)"
    by simp
  then show ?thesis
    unfolding Inr sum.case Let_def h b settled_values_def .
qed

theorem hits_published_before_batches_witness:
  "sendDiagnostics demo_modules demo_network ''npm'' ''package.json'' ''{}'' demo_collect
     warm_world =
   Some (Completed [''p10'']
           \<lparr>vulnerabilityCount = 1, advisoryCount = 0, exploitCount = 0\<rparr>,
         \<lparr>cache = [\<lparr>package = ''p10'', version = ''1.0.0''\<rparr>], codeActions = (),
          sent =
            [PublishDiagnostics ''package.json'' [],
             CaNotification (start_notification ''package.json''),
             PublishDiagnostics ''package.json'' [''p10''],
             Fetch \<lparr>ecosystem = ''npm'', package_versions =
                 [\<lparr>package = ''p0'', version = ''1.0.0''\<rparr>,
                  \<lparr>package = ''p1'', version = ''1.0.0''\<rparr>,
                  \<lparr>package = ''p2'', version = ''1.0.0''\<rparr>,
                  \<lparr>package = ''p3'', version = ''1.0.0''\<rparr>,
                  \<lparr>package = ''p4'', version = ''1.0.0''\<rparr>,
                  \<lparr>package = ''p5'', version = ''1.0.0''\<rparr>,
                  \<lparr>package = ''p6'', version = ''1.0.0''\<rparr>,
                  \<lparr>package = ''p7'', version = ''1.0.0''\<rparr>,
                  \<lparr>package = ''p8'', version = ''1.0.0''\<rparr>,
                  \<lparr>package = ''p9'', version = ''1.0.0''\<rparr>]\<rparr>
               ''sha256:package.json'' ''req-1'',
             CaNotification
               \<lparr>data = ''Scanned 11 dependencies, flagged 1 Known Security Vulnerability along with quick fixes'',
                diagCount = Some 1,
                vulnCount = Some \<lparr>vulnerabilityCount = 1, advisoryCount = 0, exploitCount = 0\<rparr>,
                depCount = Some 11, is_done = True, uri = ''package.json''\<rparr>]\<rparr>)"
proof -
  have c: "demo_collect ''{}'' = Inr demo_deps" by (simp add: demo_collect_def)
  have items: "cache_get demo_modules ''npm'' (cache warm_world) demo_deps =
      map (\<lambda>d. (d, None)) (butlast demo_deps) @
      [(\<lparr>name_value = ''p10'', version_value = ''1.0.0''\<rparr>,
        Some \<lparr>package = ''p10'', version = ''1.0.0''\<rparr>)]"
    by (simp add: demo_modules_def warm_world_def demo_deps_eval same_identity_def)
  have hits: "List.map_filter snd (cache_get demo_modules ''npm'' (cache warm_world) demo_deps) =
      [\<lparr>package = ''p10'', version = ''1.0.0''\<rparr>]"
    unfolding items by (simp add: map_filter_def comp_def)
  have misses: "map fst (filter (\<lambda>c. snd c = None)
        (cache_get demo_modules ''npm'' (cache warm_world) demo_deps)) = butlast demo_deps"
    unfolding items by (simp add: comp_def filter_map)
  have reqs: "chunks 10
      (map (\<lambda>d. \<lparr>package = name_value d, version = version_value d\<rparr>) (butlast demo_deps)) =
      [[\<lparr>package = ''p0'', version = ''1.0.0''\<rparr>,
        \<lparr>package = ''p1'', version = ''1.0.0''\<rparr>,
        \<lparr>package = ''p2'', version = ''1.0.0''\<rparr>,
        \<lparr>package = ''p3'', version = ''1.0.0''\<rparr>,
        \<lparr>package = ''p4'', version = ''1.0.0''\<rparr>,
        \<lparr>package = ''p5'', version = ''1.0.0''\<rparr>,
        \<lparr>package = ''p6'', version = ''1.0.0''\<rparr>,
        \<lparr>package = ''p7'', version = ''1.0.0''\<rparr>,
        \<lparr>package = ''p8'', version = ''1.0.0''\<rparr>,
        \<lparr>package = ''p9'', version = ''1.0.0''\<rparr>]]"
    by (simp add: demo_deps_eval chunks.simps)
  have run: "runPipeline demo_modules demo_deps ''package.json''
      (RespData [\<lparr>package = ''p10'', version = ''1.0.0''\<rparr>])
      (\<lparr>diagnostics = [], totalCount = new_TotalCount,
        packageAggregator = ()\<rparr>,
       warm_world\<lparr>sent := sent warm_world @
          [PublishDiagnostics ''package.json'' [],
           CaNotification (start_notification ''package.json'')]\<rparr>) =
      (Normal,
       \<lparr>diagnostics = [''p10''],
        totalCount = \<lparr>vulnerabilityCount = 1, advisoryCount = 0, exploitCount = 0\<rparr>,
        packageAggregator = ()\<rparr>,
       \<lparr>cache = [\<lparr>package = ''p10'', version = ''1.0.0''\<rparr>], codeActions = (),
        sent = [PublishDiagnostics ''package.json'' [],
                CaNotification (start_notification ''package.json''),
                PublishDiagnostics ''package.json'' [''p10'']]\<rparr>)"
    by (simp add: runPipeline_def demo_modules_def warm_world_def send_def add_counts_def
          new_TotalCount_def)
  have order: "settle_order (pick demo_network) [0] = [0]"
    by (simp add: settle_order.simps)
  have failed: "resolved_value (outcome demo_network 0) = RespStatus 500"
    by (simp add: demo_network_def resolved_value_def)
  have st: "\<And>cy w. snd (cacheAndRunPipeline demo_modules ''npm'' demo_deps ''package.json''
      (RespStatus 500) (cy, w)) = (cy, w)"
    by (simp add: cacheAndRunPipeline_def demo_modules_def)
  have msg: "getCAmsg demo_deps [''p10'']
      \<lparr>vulnerabilityCount = 1, advisoryCount = 0, exploitCount = 0\<rparr> =
    ''Scanned 11 dependencies, flagged 1 Known Security Vulnerability along with quick fixes''"
    by (simp add: getCAmsg_def demo_deps_def vulStr_def string_of_nat.simps digit_char_def)
  have len11: "length demo_deps = 11" by (simp add: demo_deps_def)
  have ids: "sha256_hex demo_modules ''package.json'' = ''sha256:package.json''"
    "requestId demo_network = ''req-1''"
    by (simp_all add: demo_modules_def demo_network_def)
  note T = hits_published_before_batches [where collect = demo_collect and contents = "''{}''"
      and M = demo_modules and net = demo_network and eco = "''npm''"
      and f = "''package.json''" and ?w0.0 = warm_world,
      unfolded c sum.case Let_def demo_valid hits misses reqs]
  from T have "sendDiagnostics demo_modules demo_network ''npm'' ''package.json'' ''{}''
      demo_collect warm_world =
    Some (Completed [''p10''] \<lparr>vulnerabilityCount = 1, advisoryCount = 0, exploitCount = 0\<rparr>,
      send (CaNotification
             (summary_notification demo_deps [''p10'']
                \<lparr>vulnerabilityCount = 1, advisoryCount = 0, exploitCount = 0\<rparr>
                ''package.json''))
        (\<lparr>cache = [\<lparr>package = ''p10'', version = ''1.0.0''\<rparr>], codeActions = (),
          sent = [PublishDiagnostics ''package.json'' [],
                  CaNotification (start_notification ''package.json''),
                  PublishDiagnostics ''package.json'' [''p10'']] @
                 [Fetch \<lparr>ecosystem = ''npm'', package_versions =
                 [\<lparr>package = ''p0'', version = ''1.0.0''\<rparr>,
                  \<lparr>package = ''p1'', version = ''1.0.0''\<rparr>,
                  \<lparr>package = ''p2'', version = ''1.0.0''\<rparr>,
                  \<lparr>package = ''p3'', version = ''1.0.0''\<rparr>,
                  \<lparr>package = ''p4'', version = ''1.0.0''\<rparr>,
                  \<lparr>package = ''p5'', version = ''1.0.0''\<rparr>,
                  \<lparr>package = ''p6'', version = ''1.0.0''\<rparr>,
                  \<lparr>package = ''p7'', version = ''1.0.0''\<rparr>,
                  \<lparr>package = ''p8'', version = ''1.0.0''\<rparr>,
                  \<lparr>package = ''p9'', version = ''1.0.0''\<rparr>]\<rparr>
               ''sha256:package.json'' ''req-1'']\<rparr>))"
    by (simp add: run order failed st ids)
  then show ?thesis
    by (simp only: summary_notification_def msg) (simp add: send_def len11)
qed

lemma shown_append: "shown f (ms @ ms') ds = shown f ms' (shown f ms ds)"
  by (induction f ms ds rule: shown.induct) simp_all

text \<open>
  C3, as the code has it. When the collector rejects, the call ends after three
  messages: the publication of an empty diagnostics list for the file, sent before
  the collector runs, the opening progress notification (not done), and the error
  notification with the error and the file's uri. The editor then shows no
  diagnostics for the file; no summary notification is sent, and the cache and the
  action index are as before.
\<close>

theorem parse_error_clears_and_aborts:
  assumes "collect contents = Inl err"
  shows "sendDiagnostics M net eco f contents collect w0 =
           Some (Aborted,
                 w0\<lparr>sent := sent w0 @
                    [PublishDiagnostics f [], CaNotification (start_notification f),
                     CaError err f]\<rparr>) \<and>
         shown f (sent w0 @
                    [PublishDiagnostics f [], CaNotification (start_notification f),
                     CaError err f]) ds = [] \<and>
         \<not> is_done (start_notification f)"
  using assms
  by (simp add: sendDiagnostics_aborted [of collect contents] opened_def send_def shown_append
        start_notification_def)

theorem parse_error_clears_and_aborts_witness:
  "sendDiagnostics demo_modules demo_network ''npm'' ''package.json'' ''{'' broken_collect
     empty_world =
     Some (Aborted,
           \<lparr>cache = [], codeActions = (),
            sent = [PublishDiagnostics ''package.json'' [],
                    CaNotification (start_notification ''package.json''),
                    CaError ''cannot parse: {'' ''package.json'']\<rparr>)"
proof -
  have b: "broken_collect ''{'' = Inl ''cannot parse: {''" by (simp add: broken_collect_def)
  from parse_error_clears_and_aborts [of broken_collect "''{''", OF b, of demo_modules
      demo_network "''npm''" "''package.json''" empty_world]
  show ?thesis by (simp add: empty_world_def)
qed

text \<open>
  The claim as stated fails: diagnostics published for the file by an earlier cycle
  are replaced by the empty list when the next cycle's collector rejects.
\<close>

theorem parse_error_changes_diagnostics:
  "sendDiagnostics demo_modules demo_network ''npm'' ''package.json'' ''{'' broken_collect
     \<lparr>cache = [], codeActions = (), sent = [PublishDiagnostics ''package.json'' [''p1'']]\<rparr> =
     Some (Aborted,
           \<lparr>cache = [], codeActions = (),
            sent = [PublishDiagnostics ''package.json'' [''p1''],
                    PublishDiagnostics ''package.json'' [],
                    CaNotification (start_notification ''package.json''),
                    CaError ''cannot parse: {'' ''package.json'']\<rparr>) \<and>
   shown ''package.json''
     ([PublishDiagnostics ''package.json'' [''p1'']] :: (string, string) message list) [] =
     [''p1''] \<and>
   shown ''package.json''
     [PublishDiagnostics ''package.json'' [''p1''],
      PublishDiagnostics ''package.json'' [],
      CaNotification (start_notification ''package.json''),
      CaError ''cannot parse: {'' ''package.json''] [] = []"
  by (simp add: sendDiagnostics_def broken_collect_def send_def)

lemma getCAmsg_length:
  "length deps = length deps' \<Longrightarrow> getCAmsg deps ds tc = getCAmsg deps' ds tc"
  by (simp add: getCAmsg_def)

lemma sendDiagnostics_no_error:
  assumes "collect contents = Inr deps"
    and "sendDiagnostics M net eco f contents collect w0 = Some (oc, w')"
  shows "\<not> list_ex is_CaError (drop (length (sent w0)) (sent w'))"
proof -
  obtain res cy1 w3 where h: "hits_run M eco f deps w0 = (res, cy1, w3)"
    by (metis surj_pair)
  show ?thesis
  proof (cases res)
    case Threw
    with h have "sendDiagnostics M net eco f contents collect w0 = Some (Rejected, w3)"
      using sendDiagnostics_rejected [of collect contents, OF assms(1)] by simp
    with assms(2) have "w' = w3" by simp
    with hits_run_sent [OF h] Threw show ?thesis by (simp add: start_notification_def)
  next
    case Normal
    with h have hn: "hits_run M eco f deps w0 = (Normal, cy1, w3)" by simp
    let ?posts = "map (\<lambda>rq. Fetch rq (sha256_hex M f) (requestId net))
        (batches M eco deps (cache w0))"
    obtain cy2 w5 where st: "settle M eco (validPackages eco deps) f
        (settled_values net (length (batches M eco deps (cache w0))))
        (cy1, w3\<lparr>sent := sent w3 @ ?posts\<rparr>) = (cy2, w5)"
      by (metis surj_pair)
    from settle_sent [OF st] obtain pubs where
      pubs: "sent w5 = (sent w3 @ ?posts) @ pubs" "list_all is_Publish pubs"
      by auto
    have "sendDiagnostics M net eco f contents collect w0 =
        Some (Completed (diagnostics cy2) (totalCount cy2),
              send (CaNotification
                     (summary_notification deps (diagnostics cy2) (totalCount cy2) f)) w5)"
      by (simp add: sendDiagnostics_completed [of collect contents, OF assms(1) hn] st)
    with assms(2) have w': "w' = send (CaNotification
        (summary_notification deps (diagnostics cy2) (totalCount cy2) f)) w5"
      by simp
    have posts: "\<not> list_ex is_CaError ?posts"
      by (simp add: list_ex_iff)
    from only_Publish [OF pubs(2)] have "\<not> list_ex is_CaError pubs" by simp
    with posts hits_run_sent [OF hn] pubs(1) w' show ?thesis
      by (auto simp: list_ex_iff)
  qed
qed

text \<open>
  C5. For an ecosystem other than golang the dependencies kept are exactly those whose
  trimmed version text consists of one to four non-empty alphanumeric segments
  separated by single dots; for golang all are kept. The entries left out are silent:
  the call goes the same way for any two collector results that keep the same
  dependencies and have the same length (only the number of scanned dependencies
  depends on the entries left out), and after a collector result no error
  notification is sent.
\<close>

theorem version_filter:
  "validPackages eco deps =
     (if eco = ''golang'' then deps
      else filter (\<lambda>d. version_pattern (trim (version_value d))) deps) \<and>
   (collect contents = Inr deps \<and> collect' contents' = Inr deps' \<and>
    validPackages eco deps = validPackages eco deps' \<and> length deps = length deps' \<longrightarrow>
      sendDiagnostics M net eco f contents collect w0 =
      sendDiagnostics M net eco f contents' collect' w0) \<and>
   (collect contents = Inr deps \<and>
    sendDiagnostics M net eco f contents collect w0 = Some (oc, w') \<longrightarrow>
      \<not> list_ex is_CaError (drop (length (sent w0)) (sent w')))"
proof (intro conjI impI)
  show "validPackages eco deps =
     (if eco = ''golang'' then deps
      else filter (\<lambda>d. version_pattern (trim (version_value d))) deps)"
    by (simp add: validPackages_def regexVersion_pattern)
next
  assume a: "collect contents = Inr deps \<and> collect' contents' = Inr deps' \<and>
    validPackages eco deps = validPackages eco deps' \<and> length deps = length deps'"
  then have eq: "summary_notification deps = summary_notification deps'"
    by (intro ext) (simp add: summary_notification_def getCAmsg_length [of deps deps'])
  from a have c: "collect contents = Inr deps" "collect' contents' = Inr deps'"
    and v: "validPackages eco deps = validPackages eco deps'"
    by simp_all
  show "sendDiagnostics M net eco f contents collect w0 =
      sendDiagnostics M net eco f contents' collect' w0"
    unfolding sendDiagnostics_def c sum.case Let_def v eq ..
next
  assume "collect contents = Inr deps \<and>
    sendDiagnostics M net eco f contents collect w0 = Some (oc, w')"
  then show "\<not> list_ex is_CaError (drop (length (sent w0)) (sent w'))"
    using sendDiagnostics_no_error [of collect contents deps M net eco f w0 oc w'] by simp
qed

lemmas pattern_eval =
  version_pattern_def trim_def is_white_space_def segment_def alphanumeric_def

lemma mixed_valid:
  "filter (\<lambda>d. version_pattern (trim (version_value d))) mixed_deps =
     [\<lparr>name_value = ''p'', version_value = '' 1.2.3 ''\<rparr>,
      \<lparr>name_value = ''s'', version_value = ''1.0''\<rparr>]"
  "filter (\<lambda>d. version_pattern (trim (version_value d))) mixed_deps_alt =
     [\<lparr>name_value = ''p'', version_value = '' 1.2.3 ''\<rparr>,
      \<lparr>name_value = ''s'', version_value = ''1.0''\<rparr>]"
  by (simp_all add: mixed_deps_def mixed_deps_alt_def pattern_eval)

lemma mixed_run:
  "sendDiagnostics demo_modules demo_network ''npm'' ''package.json'' ''{}''
     (\<lambda>contents. Inr mixed_deps) empty_world =
   Some (Completed [] \<lparr>vulnerabilityCount = 0, advisoryCount = 0, exploitCount = 0\<rparr>,
     \<lparr>cache = [], codeActions = (),
      sent =
        [PublishDiagnostics ''package.json'' [],
         CaNotification (start_notification ''package.json''),
         PublishDiagnostics ''package.json'' [],
         Fetch \<lparr>ecosystem = ''npm'',
                package_versions = [\<lparr>package = ''p'', version = '' 1.2.3 ''\<rparr>,
                                    \<lparr>package = ''s'', version = ''1.0''\<rparr>]\<rparr>
           ''sha256:package.json'' ''req-1'',
         CaNotification
           \<lparr>data = ''Scanned 4 dependencies, No potential security vulnerabilities found'',
            diagCount = Some 0,
            vulnCount = Some \<lparr>vulnerabilityCount = 0, advisoryCount = 0, exploitCount = 0\<rparr>,
            depCount = Some 4, is_done = True, uri = ''package.json''\<rparr>]\<rparr>)"
proof -
  have v: "validPackages ''npm'' mixed_deps =
     [\<lparr>name_value = ''p'', version_value = '' 1.2.3 ''\<rparr>,
      \<lparr>name_value = ''s'', version_value = ''1.0''\<rparr>]"
    by (simp add: validPackages_def regexVersion_pattern mixed_valid)
  have msg: "getCAmsg mixed_deps ([] :: string list) new_TotalCount =
      ''Scanned 4 dependencies, No potential security vulnerabilities found''"
    by (simp add: getCAmsg_def mixed_deps_def string_of_nat.simps digit_char_def)
  have len: "length mixed_deps = 4" by (simp add: mixed_deps_def)
  show ?thesis
    unfolding sendDiagnostics_def Let_def sum.case v
    by (simp add: demo_modules_def demo_network_def empty_world_def send_def cachedValues_def
          missedItems_def requestPayload_def map_filter_def runPipeline_def new_cycle_def
          slicePayload_chunks chunks.simps fetchVulnerabilities_def resolved_value_def
          settle_order.simps cacheAndRunPipeline_def summary_notification_def msg len
          new_TotalCount_def [symmetric])
qed

theorem version_filter_witness:
  "validPackages ''npm'' mixed_deps =
     [\<lparr>name_value = ''p'', version_value = '' 1.2.3 ''\<rparr>,
      \<lparr>name_value = ''s'', version_value = ''1.0''\<rparr>] \<and>
   validPackages ''golang'' mixed_deps = mixed_deps \<and>
   sendDiagnostics demo_modules demo_network ''npm'' ''package.json'' ''{}''
     (\<lambda>contents. Inr mixed_deps) empty_world =
   sendDiagnostics demo_modules demo_network ''npm'' ''package.json'' ''{}''
     (\<lambda>contents. Inr mixed_deps_alt) empty_world \<and>
   \<not> list_ex is_CaError
     ([PublishDiagnostics ''package.json'' [],
      CaNotification (start_notification ''package.json''),
      PublishDiagnostics ''package.json'' [],
      Fetch \<lparr>ecosystem = ''npm'',
             package_versions = [\<lparr>package = ''p'', version = '' 1.2.3 ''\<rparr>,
                                 \<lparr>package = ''s'', version = ''1.0''\<rparr>]\<rparr>
        ''sha256:package.json'' ''req-1'',
      CaNotification
        \<lparr>data = ''Scanned 4 dependencies, No potential security vulnerabilities found'',
         diagCount = Some 0,
         vulnCount = Some \<lparr>vulnerabilityCount = 0, advisoryCount = 0, exploitCount = 0\<rparr>,
         depCount = Some 4, is_done = True, uri = ''package.json''\<rparr>] ::
       (string, string) message list)"
proof -
  let ?c = "\<lambda>contents :: string. (Inr mixed_deps :: string + dependency list)"
  let ?c' = "\<lambda>contents :: string. (Inr mixed_deps_alt :: string + dependency list)"
  note T = version_filter [of _ _ ?c "''{}''" ?c' "''{}''" _ demo_modules demo_network
      "''package.json''" empty_world]
  have npm: "validPackages ''npm'' mixed_deps =
     [\<lparr>name_value = ''p'', version_value = '' 1.2.3 ''\<rparr>,
      \<lparr>name_value = ''s'', version_value = ''1.0''\<rparr>]"
    using T [of "''npm''" mixed_deps, THEN conjunct1] by (simp add: mixed_valid)
  have npm': "validPackages ''npm'' mixed_deps_alt =
     [\<lparr>name_value = ''p'', version_value = '' 1.2.3 ''\<rparr>,
      \<lparr>name_value = ''s'', version_value = ''1.0''\<rparr>]"
    using T [of "''npm''" mixed_deps_alt, THEN conjunct1] by (simp add: mixed_valid)
  have go: "validPackages ''golang'' mixed_deps = mixed_deps"
    using T [of "''golang''" mixed_deps, THEN conjunct1] by simp
  have len: "length mixed_deps = length mixed_deps_alt"
    by (simp add: mixed_deps_def mixed_deps_alt_def)
  have same: "sendDiagnostics demo_modules demo_network ''npm'' ''package.json'' ''{}'' ?c
      empty_world =
    sendDiagnostics demo_modules demo_network ''npm'' ''package.json'' ''{}'' ?c' empty_world"
    using T [of "''npm''" mixed_deps mixed_deps_alt, THEN conjunct2, THEN conjunct1]
      npm npm' len by simp
  have quiet: "\<not> list_ex is_CaError (drop (length (sent empty_world))
     ([PublishDiagnostics ''package.json'' [],
      CaNotification (start_notification ''package.json''),
      PublishDiagnostics ''package.json'' [],
      Fetch \<lparr>ecosystem = ''npm'',
             package_versions = [\<lparr>package = ''p'', version = '' 1.2.3 ''\<rparr>,
                                 \<lparr>package = ''s'', version = ''1.0''\<rparr>]\<rparr>
        ''sha256:package.json'' ''req-1'',
      CaNotification
        \<lparr>data = ''Scanned 4 dependencies, No potential security vulnerabilities found'',
         diagCount = Some 0,
         vulnCount = Some \<lparr>vulnerabilityCount = 0, advisoryCount = 0, exploitCount = 0\<rparr>,
         depCount = Some 4, is_done = True, uri = ''package.json''\<rparr>] ::
       (string, string) message list))"
    using T [of "''npm''" mixed_deps _ , THEN conjunct2, THEN conjunct2, rule_format,
        OF conjI [OF refl mixed_run]]
    by simp
  from npm go same quiet show ?thesis by (simp add: empty_world_def)
qed

section \<open>Properties of the debounce timer\<close>

lemma advance_idle:
  assumes "\<forall>tm \<in> set (timers s). T < fst (snd tm)"
  shows "advance T s = s"
proof -
  have "filter (\<lambda>(h, due, u). due \<le> T) (timers s) = []"
    using assms by (auto simp: filter_empty_conv)
  then show ?thesis by (simp add: advance_def)
qed

lemma advance_single:
  assumes "timers s = [(h, due, u)]" and "due \<le> T"
  shows "advance T s = handle_file_event u (file_data s u) (s\<lparr>timers := []\<rparr>)"
  using assms by (simp add: advance_def fire_def)

text \<open>At most one timer is pending, the one \<^verbatim>\<open>checkDelay\<close> holds, due after \<open>t\<close>.\<close>

lemma edit_step:
  assumes "timers s = [] \<or> (\<exists>h due u'. timers s = [(h, due, u')] \<and> checkDelay s = Some h \<and> t < due)"
  shows "on_event t (DidChange u (c # cs)) (advance t s) =
           s\<lparr>file_data := (file_data s)(u \<mapsto> c),
             checkDelay := Some (next_handle s),
             timers := [(next_handle s, t + 500, u)],
             next_handle := Suc (next_handle s)\<rparr>"
proof -
  from assms have "\<forall>tm \<in> set (timers s). t < fst (snd tm)" by auto
  then have idle: "advance t s = s" by (rule advance_idle)
  from assms show ?thesis
    by (auto simp: idle clearTimeout_def setTimeout_def)
qed

lemma burst_state:
  assumes "edit_burst evs" and "evs \<noteq> []"
    and "timers s = [] \<or>
         (\<exists>h due u'. timers s = [(h, due, u')] \<and> checkDelay s = Some h \<and> fst (hd evs) < due)"
  shows "runs (run_events evs s) = runs s \<and>
         (\<exists>h. timers (run_events evs s) =
                [(h, fst (last evs) + 500, fst (edit_of (last evs)))] \<and>
              checkDelay (run_events evs s) = Some h) \<and>
         file_data (run_events evs s) (fst (edit_of (last evs))) = snd (edit_of (last evs))"
  using assms
proof (induction evs arbitrary: s rule: edit_burst.induct)
  case (2 t u c cs)
  from "2.prems"(3) have "timers s = [] \<or>
      (\<exists>h due u'. timers s = [(h, due, u')] \<and> checkDelay s = Some h \<and> t < due)"
    by simp
  from edit_step [OF this, of u c cs]
  show ?case by simp
next
  case (3 t u c cs t' ev evs)
  define s1 where "s1 = on_event t (DidChange u (c # cs)) (advance t s)"
  from "3.prems"(3) have "timers s = [] \<or>
      (\<exists>h due u'. timers s = [(h, due, u')] \<and> checkDelay s = Some h \<and> t < due)"
    by simp
  from edit_step [OF this, of u c cs]
  have s1: "s1 = s\<lparr>file_data := (file_data s)(u \<mapsto> c),
             checkDelay := Some (next_handle s),
             timers := [(next_handle s, t + 500, u)],
             next_handle := Suc (next_handle s)\<rparr>"
    by (simp only: s1_def)
  from "3.prems"(1) have b: "edit_burst ((t', ev) # evs)" and w: "t' < t + 500" by simp_all
  have inv: "timers s1 = [] \<or>
         (\<exists>h due u'. timers s1 = [(h, due, u')] \<and> checkDelay s1 = Some h \<and>
            fst (hd ((t', ev) # evs)) < due)"
    using w by (simp add: s1)
  have ne: "(t', ev) # evs \<noteq> []" by simp
  note IH = "3.IH" [OF b ne inv]
  have r: "runs s1 = runs s" by (simp add: s1)
  have step: "run_events ((t, DidChange u (c # cs)) # (t', ev) # evs) s =
      run_events ((t', ev) # evs) s1"
    by (simp only: run_events.simps s1_def)
  have l: "last ((t, DidChange u (c # cs)) # (t', ev) # evs) = last ((t', ev) # evs)"
    by simp
  show ?case
    unfolding step l using IH r by simp
qed simp_all

lemma close_clears:
  assumes "timers r = [] \<or> (\<exists>h due u'. timers r = [(h, due, u')] \<and> checkDelay r = Some h)"
  shows "timers (on_event T (DidClose u) r) = [] \<and> runs (on_event T (DidClose u) r) = runs r"
  using assms by (auto simp: clearTimeout_def)

lemma save_runs:
  "runs (on_event T (DidSave u) r) = runs r @ [(u, file_data r u)]"
  by (simp add: clearTimeout_def handle_file_event_def Let_def)

lemma save_clears:
  assumes "timers r = [] \<or> (\<exists>h due u'. timers r = [(h, due, u')] \<and> checkDelay r = Some h)"
  shows "timers (on_event T (DidSave u) r) = []"
  using assms by (auto simp: clearTimeout_def handle_file_event_def Let_def)

text \<open>
  C6. Edits of which each comes less than 500 ms after the one before, starting with
  no timer pending, start exactly one analysis: none before 500 ms have passed since
  the last edit, and then the one of the last edit's document with its latest text,
  after which no timer is pending. A save starts its analysis at once in any state;
  handled while the timer of the edits is pending, it cancels that timer, so no second
  analysis follows. A close handled while the timer is pending cancels it and starts
  no analysis, then or later.
\<close>

theorem debounce:
  assumes burst: "edit_burst evs" and ne: "evs \<noteq> []" and idle: "timers s = []"
  shows "(\<forall>T. T < fst (last evs) + 500 \<longrightarrow>
            runs (advance T (run_events evs s)) = runs s) \<and>
         (\<forall>T. fst (last evs) + 500 \<le> T \<longrightarrow>
            runs (advance T (run_events evs s)) = runs s @ [edit_of (last evs)] \<and>
            timers (advance T (run_events evs s)) = []) \<and>
         (\<forall>T u r. runs (on_event T (DidSave u) r) = runs r @ [(u, file_data r u)]) \<and>
         (\<forall>T T' u.
            timers (on_event T (DidSave u) (run_events evs s)) = [] \<and>
            runs (advance T' (on_event T (DidSave u) (run_events evs s))) =
              runs s @ [(u, file_data (run_events evs s) u)]) \<and>
         (\<forall>T T' u.
            timers (on_event T (DidClose u) (run_events evs s)) = [] \<and>
            runs (advance T' (on_event T (DidClose u) (run_events evs s))) = runs s)"
proof -
  let ?r = "run_events evs s"
  from idle have "timers s = [] \<or>
      (\<exists>h due u'. timers s = [(h, due, u')] \<and> checkDelay s = Some h \<and> fst (hd evs) < due)"
    by simp
  from burst_state [OF burst ne this] obtain h where
    r: "runs ?r = runs s" and
    tm: "timers ?r = [(h, fst (last evs) + 500, fst (edit_of (last evs)))]" and
    cd: "checkDelay ?r = Some h" and
    fd: "file_data ?r (fst (edit_of (last evs))) = snd (edit_of (last evs))"
    by blast
  have held: "timers ?r = [] \<or> (\<exists>h due u'. timers ?r = [(h, due, u')] \<and> checkDelay ?r = Some h)"
    using tm cd by simp
  have before: "\<forall>T. T < fst (last evs) + 500 \<longrightarrow> runs (advance T ?r) = runs s"
  proof (intro allI impI)
    fix T assume "T < fst (last evs) + 500"
    with tm have "\<forall>tm \<in> set (timers ?r). T < fst (snd tm)" by simp
    from advance_idle [OF this] r show "runs (advance T ?r) = runs s" by simp
  qed
  have after: "\<forall>T. fst (last evs) + 500 \<le> T \<longrightarrow>
      runs (advance T ?r) = runs s @ [edit_of (last evs)] \<and> timers (advance T ?r) = []"
  proof (intro allI impI)
    fix T assume "fst (last evs) + 500 \<le> T"
    from advance_single [OF tm this] r fd
    show "runs (advance T ?r) = runs s @ [edit_of (last evs)] \<and> timers (advance T ?r) = []"
      by (simp add: handle_file_event_def)
  qed
  have save: "\<forall>T u r. runs (on_event T (DidSave u) r) = runs r @ [(u, file_data r u)]"
    by (intro allI) (rule save_runs)
  have save_pending: "\<forall>T T' u.
      timers (on_event T (DidSave u) ?r) = [] \<and>
      runs (advance T' (on_event T (DidSave u) ?r)) = runs s @ [(u, file_data ?r u)]"
  proof (intro allI)
    fix T T' u
    have e: "timers (on_event T (DidSave u) ?r) = []" by (rule save_clears [OF held])
    then have "advance T' (on_event T (DidSave u) ?r) = on_event T (DidSave u) ?r"
      by (intro advance_idle) simp
    with e r show "timers (on_event T (DidSave u) ?r) = [] \<and>
      runs (advance T' (on_event T (DidSave u) ?r)) = runs s @ [(u, file_data ?r u)]"
      by (simp add: save_runs del: on_event.simps)
  qed
  have close_pending: "\<forall>T T' u.
      timers (on_event T (DidClose u) ?r) = [] \<and>
      runs (advance T' (on_event T (DidClose u) ?r)) = runs s"
  proof (intro allI)
    fix T T' u
    from close_clears [OF held, of T u]
    have e: "timers (on_event T (DidClose u) ?r) = []"
      and k: "runs (on_event T (DidClose u) ?r) = runs ?r" by simp_all
    from e have "advance T' (on_event T (DidClose u) ?r) = on_event T (DidClose u) ?r"
      by (intro advance_idle) simp
    with e k r show "timers (on_event T (DidClose u) ?r) = [] \<and>
      runs (advance T' (on_event T (DidClose u) ?r)) = runs s"
      by simp
  qed
  from before after save save_pending close_pending show ?thesis by (intro conjI)
qed

theorem debounce_witness:
  "runs (advance 899 (run_events three_edits initial_tracker)) = [] \<and>
   runs (advance 900 (run_events three_edits initial_tracker)) =
     [(''package.json'', Some ''abc'')] \<and>
   runs (advance 2000 (on_event 450 (DidSave ''package.json'')
           (run_events three_edits initial_tracker))) =
     [(''package.json'', Some ''abc'')] \<and>
   runs (advance 2000 (on_event 450 (DidClose ''package.json'')
           (run_events three_edits initial_tracker))) = []"
proof -
  have b: "edit_burst three_edits" and n: "three_edits \<noteq> []"
    and i: "timers initial_tracker = []"
    by (simp_all add: three_edits_def initial_tracker_def)
  note T = debounce [OF b n i]
  have l: "fst (last three_edits) + 500 = 900"
    "edit_of (last three_edits) = (''package.json'', Some ''abc'')"
    "runs initial_tracker = []"
    by (simp_all add: three_edits_def initial_tracker_def)
  have fd: "file_data (run_events three_edits initial_tracker) ''package.json'' = Some ''abc''"
    by (simp add: three_edits_def initial_tracker_def advance_def clearTimeout_def
          setTimeout_def)
  from T [THEN conjunct1, rule_format, of 899]
  have 1: "runs (advance 899 (run_events three_edits initial_tracker)) = []"
    by (simp add: l)
  from T [THEN conjunct2, THEN conjunct1, rule_format, of 900]
  have 2: "runs (advance 900 (run_events three_edits initial_tracker)) =
     [(''package.json'', Some ''abc'')]"
    by (simp add: l)
  from T [THEN conjunct2, THEN conjunct2, THEN conjunct2, THEN conjunct1, rule_format,
      of 450 "''package.json''" 2000]
  have 3: "runs (advance 2000 (on_event 450 (DidSave ''package.json'')
           (run_events three_edits initial_tracker))) = [(''package.json'', Some ''abc'')]"
    by (simp add: l fd del: on_event.simps)
  from T [THEN conjunct2, THEN conjunct2, THEN conjunct2, THEN conjunct2, rule_format,
      of 450 "''package.json''" 2000]
  have 4: "runs (advance 2000 (on_event 450 (DidClose ''package.json'')
           (run_events three_edits initial_tracker))) = []"
    by (simp add: l del: on_event.simps)
  from 1 2 3 4 show ?thesis by (intro conjI)
qed

end
